theory Spec2Isabelle
  imports Main
begin

section \<open>Python string operations used by the archiver\<close>

text \<open>
  A Python \<open>str\<close> is modelled as a \<open>string\<close>; one \<open>char\<close> stands for one code point
  (the code points below 256). The operations below are the \<open>str\<close> methods that
  \<open>config.py\<close> calls, written so that they compute.
\<close>

text \<open>\<open>str.isspace\<close> on one code point below 256: TAB, LF, VT, FF, CR, the separators
  FS, GS, RS, US, the blank, NEL and the no-break space.\<close>

definition is_space :: "char \<Rightarrow> bool" where
  "is_space c = (of_char c \<in> {9, 10, 11, 12, 13, 28, 29, 30, 31, 32, 133, 160 :: nat})"

text \<open>\<open>s.lstrip()\<close>, \<open>s.rstrip()\<close> and \<open>s.strip()\<close> without argument.\<close>

definition lstrip :: "string \<Rightarrow> string" where
  "lstrip s = dropWhile is_space s"

definition rstrip :: "string \<Rightarrow> string" where
  "rstrip s = rev (dropWhile is_space (rev s))"

definition strip :: "string \<Rightarrow> string" where
  "strip s = rstrip (lstrip s)"

text \<open>\<open>s.rstrip(cs)\<close>: removes every trailing character that occurs in \<open>cs\<close>.\<close>

definition rstrip_chars :: "string \<Rightarrow> string \<Rightarrow> string" where
  "rstrip_chars s cs = rev (dropWhile (\<lambda>c. c \<in> set cs) (rev s))"

text \<open>\<open>s.startswith(p)\<close>.\<close>

fun startswith :: "string \<Rightarrow> string \<Rightarrow> bool" where
  "startswith s [] = True"
| "startswith [] (p # ps) = False"
| "startswith (c # s) (p # ps) = (c = p \<and> startswith s ps)"

text \<open>\<open>sub in s\<close>: \<open>sub\<close> occurs in \<open>s\<close> as a contiguous substring.\<close>

fun contains :: "string \<Rightarrow> string \<Rightarrow> bool" where
  "contains [] sub = (sub = [])"
| "contains (c # s) sub = (startswith (c # s) sub \<or> contains s sub)"

text \<open>\<open>s.endswith(p)\<close>.\<close>

definition endswith :: "string \<Rightarrow> string \<Rightarrow> bool" where
  "endswith s suf = startswith (rev s) (rev suf)"

section \<open>The channel URL normalizer (\<open>config.py\<close>)\<close>

text \<open>
  \<open>get_channel_url\<close> has four \<open>return\<close> statements and falls off its end when no rule
  matches; a Python function that falls off its end returns \<open>None\<close>. The result is
  therefore a \<open>string option\<close>, \<open>None\<close> being Python's \<open>None\<close>. No statement of the function
  raises on a \<open>str\<close> argument.
\<close>

definition get_channel_url :: "string \<Rightarrow> string option" where
  "get_channel_url channel_identifier0 =
     (let channel_identifier = strip channel_identifier0 in
      if startswith channel_identifier ''http://'' \<or> startswith channel_identifier ''https://'' then
        if contains channel_identifier ''youtube.com/watch?v='' then Some channel_identifier
        else if \<not> contains channel_identifier ''/videos'' then
          Some (rstrip_chars channel_identifier ''/'' @ ''/videos'')
        else Some channel_identifier
      else if startswith channel_identifier ''UC'' then
        Some (''https://www.youtube.com/channel/'' @ channel_identifier @ ''/videos'')
      else if contains channel_identifier ''@'' then
        Some (''https://www.youtube.com/'' @ rstrip_chars channel_identifier ''/'' @ ''/videos'')
      else None)"

section \<open>Decimal rendering of numbers in f-strings\<close>

definition digit_char :: "nat \<Rightarrow> char" where
  "digit_char d = ''0123456789'' ! d"

fun str_nat :: "nat \<Rightarrow> string" where
  "str_nat n = (if n < 10 then [digit_char n] else str_nat (n div 10) @ [digit_char (n mod 10)])"

declare str_nat.simps [simp del]

definition str_int :: "int \<Rightarrow> string" where
  "str_int i = (if i < 0 then ''-'' @ str_nat (nat (- i)) else str_nat (nat i))"

section \<open>Exceptions, external outcomes and the actions of a coroutine\<close>

text \<open>
  The exceptions that travel through the archiver. Each carries the text that \<open>str(e)\<close>
  gives. \<open>DownloadError\<close> is the class of \<open>downloader.py\<close>, \<open>ConfigError\<close> the class of
  \<open>config.py\<close>; \<open>TypeError\<close>, \<open>KeyError\<close> and \<open>ValueError\<close> are Python's own; \<open>ExternalError\<close> is an
  exception raised inside yt-dlp.
\<close>

datatype error =
    ConfigError string
  | DownloadError string
  | TypeError string
  | KeyError string
  | ValueError string
  | ExternalError string

fun str_error :: "error \<Rightarrow> string" where
  "str_error (ConfigError m) = m"
| "str_error (DownloadError m) = m"
| "str_error (TypeError m) = m"
| "str_error (KeyError m) = m"
| "str_error (ValueError m) = m"
| "str_error (ExternalError m) = m"

text \<open>
  The external capabilities are oracles. One call of \<open>_run_yt_dlp_download\<close> in the
  executor either returns or raises an exception with a message; one call of
  \<open>_extract_metadata\<close> returns a metadata dictionary (or \<open>None\<close>) or raises.
\<close>

datatype fetch_outcome = FetchOk | FetchRaised string

type_synonym metadata = "(string \<times> string) list"

datatype probe_outcome = ProbeReturned "metadata option" | ProbeRaised string

datatype level = INFO | WARNING | ERROR

text \<open>
  What one coroutine does, in order. An awaited external operation is two actions, the
  call and its completion, because the coroutine is suspended between them and other
  tasks of the event loop run there. \<open>SemAcquire\<close> and \<open>SemRelease\<close> are the entry and the
  exit of \<open>async with semaphore\<close>, \<open>CreateTask\<close> is \<open>asyncio.create_task\<close> with the
  actions of the new task, \<open>Gather\<close> is \<open>await asyncio.gather(*tasks)\<close> on the tasks this
  coroutine created.
\<close>

datatype action =
    SemAcquire
  | SemRelease
  | ProbeCall string
  | ProbeDone probe_outcome
  | FetchCall string string "string option"
  | FetchDone fetch_outcome
  | SleepCall int
  | SleepDone
  | Log level string
  | CreateTask "action list"
  | Gather

type_synonym 'a result = "(error + 'a) \<times> action list"

section \<open>The retry executor (\<open>downloader.py\<close>)\<close>

definition RETRY_LIMIT :: nat where
  "RETRY_LIMIT = 3"

text \<open>
  \<open>asyncio.sleep(delay)\<close> with an \<open>int\<close>. A delay that is not positive yields to the loop
  once and returns. A positive delay goes to \<open>loop.call_later\<close>, which computes
  \<open>self.time() + delay\<close>: the \<open>int\<close> is converted to a \<open>float\<close>, and the conversion raises
  \<open>OverflowError\<close> for an \<open>int\<close> that rounds to more than the largest \<open>float\<close>, that is from
  \<open>2 ** 1024 - 2 ** 970\<close> on. The exception is raised before the coroutine is suspended,
  so a sleep that raises is no action of the coroutine. The result is the message of
  the exception, if any, and the actions.
\<close>

definition float_overflow :: int where
  "float_overflow = 2 ^ 1024 - 2 ^ 970"

definition asyncio_sleep :: "int \<Rightarrow> string option \<times> action list" where
  "asyncio_sleep delay =
     (if delay \<le> 0 then (None, [SleepCall delay, SleepDone])
      else if float_overflow \<le> delay then (Some ''int too large to convert to float'', [])
      else (None, [SleepCall delay, SleepDone]))"

text \<open>\<open>if rate_limit: await asyncio.sleep(rate_limit)\<close>: \<open>None\<close> and \<open>0\<close> are falsy.\<close>

definition sleep_after_download :: "int option \<Rightarrow> string option \<times> action list" where
  "sleep_after_download rate_limit =
     (case rate_limit of
        None \<Rightarrow> (None, [])
      | Some r \<Rightarrow> if r \<noteq> 0 then asyncio_sleep r else (None, []))"

text \<open>
  The body of the \<open>try\<close> of \<open>download_video\<close>, given the outcome of its fetch: the fetch in
  the executor and, when the fetch has returned, the sleep. The result is the message of
  the exception that leaves the body, if any, and the actions. The \<open>return\<close> that ends
  the body is reached when neither the fetch nor the sleep raises.
\<close>

definition try_body ::
  "string \<Rightarrow> string \<Rightarrow> string option \<Rightarrow> int option \<Rightarrow> fetch_outcome
     \<Rightarrow> string option \<times> action list"
where
  "try_body video_url download_directory cookies_file rate_limit fetched =
     (case fetched of
        FetchRaised exc \<Rightarrow>
          (Some exc,
           [FetchCall video_url download_directory cookies_file, FetchDone (FetchRaised exc)])
      | FetchOk \<Rightarrow>
          (case sleep_after_download rate_limit of
             (raised, slept) \<Rightarrow>
               (raised,
                [FetchCall video_url download_directory cookies_file, FetchDone FetchOk]
                  @ slept)))"

text \<open>
  The \<open>while tries < RETRY_LIMIT\<close> loop of \<open>download_video\<close>, entered with the current
  value of \<open>tries\<close>. \<open>fetch k\<close> is the outcome of the fetch that is started when \<open>tries\<close> is
  \<open>k\<close>. The \<open>except Exception\<close> handler catches whatever the body of the \<open>try\<close> raises, the
  fetch or the sleep after it, counts it, logs the warning and raises \<open>DownloadError\<close> once
  \<open>tries\<close> has reached the limit. When the condition of the \<open>while\<close> is false the function
  falls off its end and returns. Every fetch ends, and so does every sleep that has
  started; a cancellation of the task, which is no \<open>Exception\<close> and passes the handler, is
  not part of the model.
\<close>

function download_video_loop ::
  "string \<Rightarrow> string \<Rightarrow> string option \<Rightarrow> int option \<Rightarrow> (nat \<Rightarrow> fetch_outcome) \<Rightarrow> nat \<Rightarrow> unit result"
where
  "download_video_loop video_url download_directory cookies_file rate_limit fetch tries =
     (if tries < RETRY_LIMIT then
        (case try_body video_url download_directory cookies_file rate_limit (fetch tries) of
           (None, body) \<Rightarrow> (Inr (), body)
         | (Some exc, body) \<Rightarrow>
             (let tries' = tries + 1;
                  attempt =
                    body
                    @ [Log WARNING (''Download attempt '' @ str_nat tries' @ '' for '' @ video_url
                                      @ '' failed: '' @ exc)]
              in if tries' \<ge> RETRY_LIMIT then
                   (Inl (DownloadError (''Failed to download '' @ video_url @ '' after ''
                                          @ str_nat RETRY_LIMIT @ '' retries.'')),
                    attempt)
                 else
                   (case download_video_loop video_url download_directory cookies_file
                           rate_limit fetch tries' of
                      (r, tr) \<Rightarrow> (r, attempt @ tr))))
      else (Inr (), []))"
  by pat_completeness auto
termination
  by (relation "measure (\<lambda>(u, d, c, r, f, tries). RETRY_LIMIT - tries)") auto

declare download_video_loop.simps [simp del]

definition download_video ::
  "string \<Rightarrow> string \<Rightarrow> string option \<Rightarrow> int option \<Rightarrow> (nat \<Rightarrow> fetch_outcome) \<Rightarrow> unit result"
where
  "download_video video_url download_directory cookies_file rate_limit fetch =
     download_video_loop video_url download_directory cookies_file rate_limit fetch 0"


section \<open>Reading a sequence of actions\<close>

text \<open>The number of fetches started, the seconds slept, the texts logged at a level.\<close>

fun is_fetch_call :: "action \<Rightarrow> bool" where
  "is_fetch_call (FetchCall u d c) = True"
| "is_fetch_call a = False"

definition fetch_calls :: "action list \<Rightarrow> nat" where
  "fetch_calls tr = length (filter is_fetch_call tr)"

fun sleep_seconds :: "action \<Rightarrow> int list" where
  "sleep_seconds (SleepCall r) = [r]"
| "sleep_seconds a = []"

definition sleeps :: "action list \<Rightarrow> int list" where
  "sleeps tr = concat (map sleep_seconds tr)"

fun logged_at :: "level \<Rightarrow> action \<Rightarrow> string list" where
  "logged_at l (Log l' m) = (if l = l' then [m] else [])"
| "logged_at l a = []"

definition logged :: "level \<Rightarrow> action list \<Rightarrow> string list" where
  "logged l tr = concat (map (logged_at l) tr)"


text \<open>
  The exception that ends an attempt, given the outcome of its fetch: the exception of
  the fetch, or the exception of the sleep after a fetch that returned; \<open>None\<close> when the
  attempt succeeds. \<open>reason\<close> is its text. \<open>sleep_returns\<close> says that the sleep for a rate
  limit does not raise.
\<close>

definition attempt_error :: "int option \<Rightarrow> fetch_outcome \<Rightarrow> string option" where
  "attempt_error rate_limit fetched =
     (case fetched of
        FetchRaised exc \<Rightarrow> Some exc
      | FetchOk \<Rightarrow> fst (sleep_after_download rate_limit))"

definition reason :: "int option \<Rightarrow> fetch_outcome \<Rightarrow> string" where
  "reason rate_limit fetched = (case attempt_error rate_limit fetched of None \<Rightarrow> [] | Some exc \<Rightarrow> exc)"

definition sleep_returns :: "int option \<Rightarrow> bool" where
  "sleep_returns rate_limit = (fst (sleep_after_download rate_limit) = None)"

text \<open>The number of attempts that fail before the first one that succeeds, among the
  first \<open>RETRY_LIMIT\<close>, and the number of fetches that fail before the first one that
  returns.\<close>

definition failed_attempts :: "int option \<Rightarrow> (nat \<Rightarrow> fetch_outcome) \<Rightarrow> nat" where
  "failed_attempts rate_limit fetch =
     length (takeWhile (\<lambda>k. attempt_error rate_limit (fetch k) \<noteq> None) [0..<RETRY_LIMIT])"


section \<open>The metadata gate and the per-channel downloader (\<open>downloader.py\<close>)\<close>

text \<open>
  \<open>fetch_video_metadata\<close> awaits \<open>_extract_metadata\<close> in the executor and turns every
  exception into \<open>None\<close>.
\<close>

definition fetch_video_metadata :: "string \<Rightarrow> probe_outcome \<Rightarrow> metadata option \<times> action list" where
  "fetch_video_metadata url probe =
     (case probe of
        ProbeReturned metadata \<Rightarrow> (metadata, [ProbeCall url, ProbeDone probe])
      | ProbeRaised exc \<Rightarrow> (None, [ProbeCall url, ProbeDone probe]))"

text \<open>
  \<open>sem_download\<close>, the closure of \<open>download_videos_in_channel\<close>. The whole body is inside
  \<open>async with semaphore\<close>, so the slot is released on every way out: the early \<open>return\<close>,
  the normal end and an exception other than \<open>DownloadError\<close>. \<open>download_video\<close> is called
  without \<open>cookies_file\<close>.
\<close>

definition sem_download ::
  "string \<Rightarrow> string \<Rightarrow> int option \<Rightarrow> probe_outcome \<Rightarrow> (nat \<Rightarrow> fetch_outcome) \<Rightarrow> unit result"
where
  "sem_download video_url download_dir rate_limit probe fetch =
     (case fetch_video_metadata video_url probe of
        (None, ptr) \<Rightarrow>
          (Inr (),
           [SemAcquire] @ ptr
             @ [Log WARNING (''Skipping download (metadata fetch failed): '' @ video_url)]
             @ [SemRelease])
      | (Some metadata, ptr) \<Rightarrow>
          (case download_video video_url download_dir None rate_limit fetch of
             (Inr u, dtr) \<Rightarrow> (Inr (), [SemAcquire] @ ptr @ dtr @ [SemRelease])
           | (Inl e, dtr) \<Rightarrow>
               (case e of
                  DownloadError m \<Rightarrow>
                    (Inr (), [SemAcquire] @ ptr @ dtr @ [Log ERROR (str_error e)] @ [SemRelease])
                | _ \<Rightarrow> (Inl e, [SemAcquire] @ ptr @ dtr @ [SemRelease]))))"

section \<open>The event loop\<close>

text \<open>
  A task of the event loop: the actions its coroutine has still to do, the actions it
  has done, whether the coroutine has returned, whether the task carries the done
  callback \<open>lambda _: pbar.update(1)\<close>, whether that callback has run, and the tasks it
  has created.
\<close>

record task =
  todo :: "action list"
  executed :: "action list"
  finished :: bool
  has_callback :: bool
  callback_ran :: bool
  children :: "nat list"

text \<open>The \<open>tqdm\<close> progress bar: its \<open>total\<close> and its running count \<open>n\<close>.\<close>

record pbar =
  pbar_total :: nat
  pbar_n :: nat

text \<open>The state of one run of the loop: the value of the \<open>asyncio.Semaphore\<close>, the tasks
  in the order of their creation, and the progress bar when there is one.\<close>

record loop_state =
  sem_value :: nat
  tasks :: "task list"
  progress :: "pbar option"

definition new_task :: "action list \<Rightarrow> bool \<Rightarrow> task" where
  "new_task acts cb =
     \<lparr>todo = acts, executed = [], finished = False, has_callback = cb, callback_ran = False,
      children = []\<rparr>"

text \<open>A task does the first of the actions it has to do.\<close>

definition advance :: "task \<Rightarrow> task" where
  "advance t =
     (case todo t of
        [] \<Rightarrow> t
      | a # rest \<Rightarrow> t\<lparr>todo := rest, executed := executed t @ [a]\<rparr>)"

definition pbar_update :: "pbar \<Rightarrow> nat \<Rightarrow> pbar" where
  "pbar_update p k = p\<lparr>pbar_n := pbar_n p + k\<rparr>"

text \<open>
  One step of the loop: task \<open>i\<close> does its next action. Entering \<open>async with semaphore\<close>
  takes a slot when the value is positive and waits otherwise (the step changes
  nothing); leaving it gives the slot back. \<open>asyncio.create_task\<close> appends a task
  without callback. \<open>gather\<close> lets the coroutine go on once the tasks it created have
  finished. A coroutine with nothing left to do returns: its task is finished. The task
  does not call its done callback then: it hands the callback to \<open>loop.call_soon\<close>, and
  the loop runs it later, after whatever else is ready. That is a step of its own here,
  a step for a finished task whose callback has not run; other tasks may step in between.
  Any other action just happens. A step for a task that does not exist, or that has
  finished and has no callback left to run, changes nothing.
\<close>

definition step :: "nat \<Rightarrow> loop_state \<Rightarrow> loop_state" where
  "step i s =
     (if i \<ge> length (tasks s) then s
      else
        let t = tasks s ! i in
        if finished t then
          if has_callback t \<and> \<not> callback_ran t
          then s\<lparr>tasks := (tasks s)[i := t\<lparr>callback_ran := True\<rparr>],
                 progress := map_option (\<lambda>p. pbar_update p 1) (progress s)\<rparr>
          else s
        else
          (case todo t of
             [] \<Rightarrow> s\<lparr>tasks := (tasks s)[i := t\<lparr>finished := True\<rparr>]\<rparr>
           | a # rest \<Rightarrow>
               (case a of
                  SemAcquire \<Rightarrow>
                    if sem_value s > 0
                    then s\<lparr>sem_value := sem_value s - 1, tasks := (tasks s)[i := advance t]\<rparr>
                    else s
                | SemRelease \<Rightarrow>
                    s\<lparr>sem_value := sem_value s + 1, tasks := (tasks s)[i := advance t]\<rparr>
                | CreateTask acts \<Rightarrow>
                    s\<lparr>tasks :=
                        (tasks s)[i := (advance t)\<lparr>children := children t @ [length (tasks s)]\<rparr>]
                          @ [new_task acts False]\<rparr>
                | Gather \<Rightarrow>
                    if list_all (\<lambda>c. finished (tasks s ! c)) (children t)
                    then s\<lparr>tasks := (tasks s)[i := advance t]\<rparr>
                    else s
                | _ \<Rightarrow> s\<lparr>tasks := (tasks s)[i := advance t]\<rparr>)))"

text \<open>A schedule is the list of the tasks that step, in order.\<close>

definition run_loop :: "nat list \<Rightarrow> loop_state \<Rightarrow> loop_state" where
  "run_loop schedule s = foldl (\<lambda>st i. step i st) s schedule"

text \<open>
  An item unit is in flight when its probe and fetch sequence has begun (a probe or a
  fetch has been started) and its coroutine has not yet done all its actions.
\<close>

fun is_external_call :: "action \<Rightarrow> bool" where
  "is_external_call (ProbeCall u) = True"
| "is_external_call (FetchCall u d c) = True"
| "is_external_call a = False"

definition in_flight :: "task \<Rightarrow> bool" where
  "in_flight t = (list_ex is_external_call (executed t) \<and> todo t \<noteq> [])"

definition in_flight_count :: "loop_state \<Rightarrow> nat" where
  "in_flight_count s = length (filter in_flight (tasks s))"

text \<open>A task whose fetch is running in the executor: it has started the fetch and waits
  for its completion.\<close>

definition awaiting_fetch :: "task \<Rightarrow> bool" where
  "awaiting_fetch t =
     (executed t \<noteq> [] \<and> is_fetch_call (last (executed t))
      \<and> (case todo t of FetchDone r # rest \<Rightarrow> True | _ \<Rightarrow> False))"

text \<open>
  \<open>download_videos_in_channel\<close> creates the semaphore and the progress bar, then one
  task per video with the done callback, and awaits them. The loop that creates the
  tasks has no \<open>await\<close>, so the event loop gets control with all the tasks created and
  none started: this is the state returned. \<open>asyncio.Semaphore\<close> raises \<open>ValueError\<close> for
  a negative value. \<open>probe i\<close> and \<open>fetch i\<close> are the outcomes for the \<open>i\<close>-th video.
\<close>

definition download_videos_in_channel ::
  "string list \<Rightarrow> string \<Rightarrow> int \<Rightarrow> int option \<Rightarrow> (nat \<Rightarrow> probe_outcome)
     \<Rightarrow> (nat \<Rightarrow> nat \<Rightarrow> fetch_outcome) \<Rightarrow> error + loop_state"
where
  "download_videos_in_channel channel_videos download_dir max_concurrent rate_limit probe fetch =
     (if max_concurrent < 0 then Inl (ValueError ''Semaphore initial value must be >= 0'')
      else Inr
        \<lparr>sem_value = nat max_concurrent,
         tasks = map (\<lambda>(i, video_url).
                        new_task (snd (sem_download video_url download_dir rate_limit
                                         (probe i) (fetch i))) True)
                     (enumerate 0 channel_videos),
         progress = Some \<lparr>pbar_total = length channel_videos, pbar_n = 0\<rparr>\<rparr>)"

section \<open>The entry path (\<open>main.py\<close>)\<close>

text \<open>
  The lister is an oracle: \<open>ydl.extract_info\<close> on a channel URL raises, or gives the
  list under \<open>"entries"\<close> (the empty list when the key is absent). An entry is \<open>None\<close> or a
  dictionary.
\<close>

type_synonym entry = "(string \<times> string) list option"

datatype lister_outcome = ListRaised string | Listed "entry list"

text \<open>
  The body of the loop over the entries: \<open>if entry and "id" in entry\<close> holds for a
  non-empty dictionary with the key \<open>"id"\<close>, and then the URL built from \<open>entry['id']\<close> is
  appended.
\<close>

definition entry_video_url :: "entry \<Rightarrow> string list" where
  "entry_video_url e =
     (case e of
        None \<Rightarrow> []
      | Some d \<Rightarrow>
          if d = [] then []
          else (case map_of d ''id'' of
                  None \<Rightarrow> []
                | Some video_id \<Rightarrow> [''https://www.youtube.com/watch?v='' @ video_id]))"

text \<open>
  \<open>list_videos_in_channel\<close>. Its argument is the result of \<open>get_channel_url\<close>, which may
  be \<open>None\<close>; the test \<open>"youtube.com/watch?v=" in channel_url\<close> then raises \<open>TypeError\<close>.
\<close>

definition list_videos_in_channel ::
  "string option \<Rightarrow> (string \<Rightarrow> lister_outcome) \<Rightarrow> error + string list"
where
  "list_videos_in_channel channel_url lister =
     (case channel_url of
        None \<Rightarrow> Inl (TypeError ''argument of type 'NoneType' is not iterable'')
      | Some url \<Rightarrow>
          if contains url ''youtube.com/watch?v='' then Inr [url]
          else
            (case lister url of
               ListRaised exc \<Rightarrow> Inl (ExternalError exc)
             | Listed entries \<Rightarrow> Inr (concat (map entry_video_url entries))))"

text \<open>
  \<open>download_video_with_retries\<close>: \<open>download_video\<close> inside \<open>try\<close>, with one handler for
  \<open>DownloadError\<close> and one for every other \<open>Exception\<close>; both log at error level and the
  coroutine returns.
\<close>

definition download_video_with_retries ::
  "string \<Rightarrow> string \<Rightarrow> string option \<Rightarrow> int option \<Rightarrow> (nat \<Rightarrow> fetch_outcome) \<Rightarrow> unit result"
where
  "download_video_with_retries video_url download_directory cookies_file rate_limit fetch =
     (case download_video video_url download_directory cookies_file rate_limit fetch of
        (Inr u, tr) \<Rightarrow> (Inr (), tr)
      | (Inl e, tr) \<Rightarrow>
          (case e of
             DownloadError m \<Rightarrow>
               (Inr (),
                tr @ [Log ERROR (''Failed to download video '' @ video_url
                                   @ '' after retries: '' @ str_error e)])
           | _ \<Rightarrow>
               (Inr (),
                tr @ [Log ERROR (''Error processing video '' @ video_url @ '': ''
                                   @ str_error e)])))"

text \<open>
  \<open>await asyncio.gather(*tasks)\<close> without \<open>return_exceptions\<close>: the first exception of
  a task is raised in the awaiting coroutine, and when no task raises the coroutine goes
  on. The argument lists what each task returns or raises, in the order in which the
  tasks end. The channel tasks of \<open>main_async\<close> run their part up to the first suspension
  in the order of their creation, so there the first failing channel of the list is the
  first in time.
\<close>

definition gather :: "(error + unit) list \<Rightarrow> error + unit" where
  "gather rs = (case filter isl rs of [] \<Rightarrow> Inr () | r # rest \<Rightarrow> r)"

text \<open>\<open>f"{channel_url}"\<close> for a value that may be \<open>None\<close>.\<close>

definition str_opt :: "string option \<Rightarrow> string" where
  "str_opt x = (case x of None \<Rightarrow> ''None'' | Some v \<Rightarrow> v)"

text \<open>
  \<open>process_channel\<close>. A channel configuration is a dictionary. Nothing in the function
  catches an exception: a missing \<open>"url"\<close> key and a failure of the lister leave the
  coroutine at once. For every listed video the coroutine enters \<open>async with semaphore\<close>,
  creates the task of \<open>download_video_with_retries\<close> and leaves the \<open>async with\<close> block;
  then it awaits the tasks with \<open>gather\<close> and logs that the channel is completed.
  \<open>fetch i\<close> gives the outcomes for the \<open>i\<close>-th video.
\<close>

definition process_channel ::
  "(string \<rightharpoonup> string) \<Rightarrow> string \<Rightarrow> string option \<Rightarrow> int option
     \<Rightarrow> (string \<Rightarrow> lister_outcome) \<Rightarrow> (nat \<Rightarrow> nat \<Rightarrow> fetch_outcome) \<Rightarrow> unit result"
where
  "process_channel channel_config default_download_directory cookies rate_limit lister fetch =
     (case channel_config ''url'' of
        None \<Rightarrow> (Inl (KeyError ([CHR 0x27] @ ''url'' @ [CHR 0x27])), [])
      | Some identifier \<Rightarrow>
          (let channel_url = get_channel_url identifier;
               download_directory =
                 (case channel_config ''download_directory'' of
                    Some d \<Rightarrow> d
                  | None \<Rightarrow> default_download_directory);
               processing = Log INFO (''Processing channel URL: '' @ str_opt channel_url)
           in case list_videos_in_channel channel_url lister of
                Inl e \<Rightarrow> (Inl e, [processing])
              | Inr video_urls \<Rightarrow>
                  (let downloads =
                         map (\<lambda>(i, video_url).
                                download_video_with_retries video_url download_directory
                                  cookies rate_limit (fetch i))
                             (enumerate 0 video_urls);
                       listed =
                         [processing,
                          Log INFO (''Found '' @ str_nat (length video_urls)
                                      @ '' videos in channel: '' @ str_opt channel_url)]
                         @ concat (map (\<lambda>download.
                                          [SemAcquire, CreateTask (snd download), SemRelease])
                                       downloads)
                         @ [Gather]
                   in case gather (map fst downloads) of
                        Inl e \<Rightarrow> (Inl e, listed)
                      | Inr u \<Rightarrow>
                          (Inr (),
                           listed
                           @ [Log INFO (''Completed processing channel: ''
                                          @ str_opt channel_url)]))))"

text \<open>The configuration that \<open>load_config\<close> returns.\<close>

record config =
  channels :: "(string \<rightharpoonup> string) list"
  default_directories :: "string list"
  cookies_file :: "string option"

text \<open>
  \<open>main_async\<close>. Reading and validating the configuration file is outside the model:
  the first argument is what \<open>load_config\<close> gives, a \<open>ConfigError\<close> or the configuration.
  The result is what the coroutine returns or raises, its own log lines, and the loop
  with one task per channel, as it stands when \<open>main_async\<close> awaits them.
  \<open>fetch c i\<close> gives the outcomes for the \<open>i\<close>-th video of the \<open>c\<close>-th channel.

  The outcome is \<open>None\<close> when \<open>main_async\<close> never returns. Fetches and sleeps are taken to
  end, so this happens in one way only: the semaphore has the value 0, a channel task
  with a video to download waits for a slot that nobody holds, and no channel task has
  raised. With a positive value a channel task always finds the slot free, because it
  gives the slot back before it is suspended.
\<close>

record run =
  outcome :: "(error + unit) option"
  main_log :: "action list"
  loop :: loop_state

definition main_async ::
  "error + config \<Rightarrow> int \<Rightarrow> int option \<Rightarrow> (string \<Rightarrow> lister_outcome)
     \<Rightarrow> (nat \<Rightarrow> nat \<Rightarrow> nat \<Rightarrow> fetch_outcome) \<Rightarrow> run"
where
  "main_async loaded max_concurrent_downloads rate_limit lister fetch =
     (case loaded of
        Inl e \<Rightarrow>
          \<lparr>outcome = Some (Inl e), main_log = [],
           loop = \<lparr>sem_value = 0, tasks = [], progress = None\<rparr>\<rparr>
      | Inr cfg \<Rightarrow>
          if max_concurrent_downloads < 0 then
            \<lparr>outcome = Some (Inl (ValueError ''Semaphore initial value must be >= 0'')),
             main_log = [],
             loop = \<lparr>sem_value = 0, tasks = [], progress = None\<rparr>\<rparr>
          else
            (let default_download_directory =
                   (if default_directories cfg \<noteq> [] then hd (default_directories cfg) else ''.'');
                 started =
                   [Log INFO ''Starting YouTube Archiver'',
                    Log INFO (''Maximum concurrent downloads: ''
                                @ str_nat (nat max_concurrent_downloads))]
                   @ (case rate_limit of
                        None \<Rightarrow> []
                      | Some r \<Rightarrow>
                          if r \<noteq> 0
                          then [Log INFO (''Rate limit delay: '' @ str_int r
                                            @ '' seconds after each download'')]
                          else [])
                   @ (case cookies_file cfg of
                        None \<Rightarrow> []
                      | Some f \<Rightarrow>
                          if f \<noteq> [] then [Log INFO (''Using cookies file from config: '' @ f)]
                          else []);
                 results =
                   map (\<lambda>(c, channel_config).
                          process_channel channel_config default_download_directory
                            (cookies_file cfg) rate_limit lister (fetch c))
                       (enumerate 0 (channels cfg));
                 waiting =
                   (max_concurrent_downloads = 0
                    \<and> list_ex (\<lambda>r. SemAcquire \<in> set (snd r)) results);
                 returned =
                   (case gather (map fst results) of
                      Inl e \<Rightarrow> Some (Inl e)
                    | Inr u \<Rightarrow> if waiting then None else Some (Inr ()))
             in \<lparr>outcome = returned,
                 main_log =
                   started
                   @ (if returned = Some (Inr ())
                      then [Log INFO ''YouTube Archiver finished processing all channels.'']
                      else []),
                 loop = \<lparr>sem_value = nat max_concurrent_downloads,
                         tasks = map (\<lambda>r. new_task (snd r) False) results,
                         progress = None\<rparr>\<rparr>))"

section \<open>Notions used to state the properties\<close>

text \<open>What one failed attempt of \<open>download_video\<close> does when \<open>tries\<close> is \<open>k\<close>: it starts the
  fetch, the fetch ends, and the handler logs the warning with the new value of \<open>tries\<close>
  and the text of the exception. A sleep that raises has not suspended the coroutine, so
  a failed attempt has no sleep.\<close>

definition attempt_actions ::
  "string \<Rightarrow> string \<Rightarrow> string option \<Rightarrow> int option \<Rightarrow> (nat \<Rightarrow> fetch_outcome) \<Rightarrow> nat
     \<Rightarrow> action list"
where
  "attempt_actions video_url download_directory cookies rate_limit fetch k =
     [FetchCall video_url download_directory cookies,
      FetchDone (fetch k),
      Log WARNING (''Download attempt '' @ str_nat (k + 1) @ '' for '' @ video_url
                     @ '' failed: '' @ reason rate_limit (fetch k))]"

text \<open>The number of probes in a sequence of actions, those of the tasks it creates
  included, and the tasks a sequence of actions creates.\<close>

fun probe_calls :: "action \<Rightarrow> nat" where
  "probe_calls (ProbeCall u) = 1"
| "probe_calls (CreateTask acts) = sum_list (map probe_calls acts)"
| "probe_calls a = 0"

fun created :: "action \<Rightarrow> action list list" where
  "created (CreateTask acts) = [acts]"
| "created a = []"

definition spawned :: "action list \<Rightarrow> action list list" where
  "spawned tr = concat (map created tr)"

definition probes :: "action list \<Rightarrow> nat" where
  "probes tr = sum_list (map probe_calls tr)"

text \<open>The listing phase of \<open>process_channel\<close>: the lookup of \<open>"url"\<close>, the normalizer and
  \<open>list_videos_in_channel\<close>, with the exception that leaves the coroutine or the videos.\<close>

definition channel_listing ::
  "(string \<rightharpoonup> string) \<Rightarrow> (string \<Rightarrow> lister_outcome) \<Rightarrow> error + string list"
where
  "channel_listing channel_config lister =
     (case channel_config ''url'' of
        None \<Rightarrow> Inl (KeyError ([CHR 0x27] @ ''url'' @ [CHR 0x27]))
      | Some identifier \<Rightarrow> list_videos_in_channel (get_channel_url identifier) lister)"

text \<open>The tasks with the done callback are the item units of \<open>download_videos_in_channel\<close>:
  how many of them have finished, for how many of them the callback has run, and how
  many there are.\<close>

definition completed_items :: "loop_state \<Rightarrow> nat" where
  "completed_items s = length (filter (\<lambda>t. finished t \<and> has_callback t) (tasks s))"

definition counted_items :: "loop_state \<Rightarrow> nat" where
  "counted_items s = length (filter callback_ran (tasks s))"

definition item_tasks :: "loop_state \<Rightarrow> nat" where
  "item_tasks s = length (filter has_callback (tasks s))"

text \<open>The progress bar agrees with the tasks: its count is the number of item units
  whose callback has run, its total the number of item units, and a callback has run
  only for an item unit that has finished.\<close>

definition counter_ok :: "loop_state \<Rightarrow> bool" where
  "counter_ok s =
     (case progress s of
        None \<Rightarrow> False
      | Some p \<Rightarrow>
          pbar_n p = counted_items s \<and> pbar_total p = item_tasks s
          \<and> list_all (\<lambda>t. callback_ran t \<longrightarrow> finished t \<and> has_callback t) (tasks s))"

text \<open>All the actions of a task, done and to do.\<close>

definition script :: "task \<Rightarrow> action list" where
  "script t = executed t @ todo t"

text \<open>The actions of a coroutine whose whole body is inside \<open>async with semaphore\<close>: the slot
  is taken first and given back last, and nothing in between touches the semaphore or
  creates a task.\<close>

definition guarded :: "action list \<Rightarrow> bool" where
  "guarded acts =
     (\<exists>body. acts = SemAcquire # body @ [SemRelease]
        \<and> SemAcquire \<notin> set body \<and> SemRelease \<notin> set body
        \<and> (\<forall>acts. CreateTask acts \<notin> set body))"

text \<open>How many times the tasks of the loop have taken a slot, and given one back.\<close>

definition acquired :: "loop_state \<Rightarrow> nat" where
  "acquired s = sum_list (map (\<lambda>t. count_list (executed t) SemAcquire) (tasks s))"

definition released :: "loop_state \<Rightarrow> nat" where
  "released s = sum_list (map (\<lambda>t. count_list (executed t) SemRelease) (tasks s))"

text \<open>Every task of the loop is an item unit of that kind.\<close>

definition items_only :: "loop_state \<Rightarrow> bool" where
  "items_only s = (\<forall>t \<in> set (tasks s). guarded (script t) \<and> has_callback t)"










section \<open>Properties of the string operations\<close>

lemma startswith_iff: "startswith s p \<longleftrightarrow> (\<exists>r. s = p @ r)"
  by (induction s p rule: startswith.induct) auto

lemma contains_iff: "contains s sub \<longleftrightarrow> (\<exists>a b. s = a @ sub @ b)"
proof (induction s)
  case Nil
  then show ?case by auto
next
  case (Cons c s)
  show ?case
  proof
    assume "contains (c # s) sub"
    then consider "startswith (c # s) sub" | "contains s sub" by auto
    then show "\<exists>a b. c # s = a @ sub @ b"
    proof cases
      case 1
      then obtain r where "c # s = sub @ r" by (auto simp: startswith_iff)
      then have "c # s = [] @ sub @ r" by simp
      then show ?thesis by blast
    next
      case 2
      then obtain a b where "s = a @ sub @ b" using Cons.IH by auto
      then have "c # s = (c # a) @ sub @ b" by simp
      then show ?thesis by blast
    qed
  next
    assume "\<exists>a b. c # s = a @ sub @ b"
    then obtain a b where ab: "c # s = a @ sub @ b" by auto
    show "contains (c # s) sub"
    proof (cases a)
      case Nil
      with ab have "startswith (c # s) sub" by (auto simp: startswith_iff)
      then show ?thesis by simp
    next
      case (Cons x a')
      with ab have "s = a' @ sub @ b" by simp
      then have "contains s sub" using Cons.IH by auto
      then show ?thesis by simp
    qed
  qed
qed

lemma endswith_iff: "endswith s suf \<longleftrightarrow> (\<exists>r. s = r @ suf)"
proof
  assume "endswith s suf"
  then obtain r where "rev s = rev suf @ r" by (auto simp: endswith_def startswith_iff)
  then have "s = rev r @ suf" by (metis rev_append rev_rev_ident)
  then show "\<exists>r. s = r @ suf" by blast
next
  assume "\<exists>r. s = r @ suf"
  then show "endswith s suf" by (auto simp: endswith_def startswith_iff)
qed

section \<open>Properties of the normalizer\<close>

lemmas normalizer_defs =
  get_channel_url_def strip_def lstrip_def rstrip_def rstrip_chars_def is_space_def

text \<open>
  Supporting fact for C7: when the trimmed identifier starts with a scheme, is not a watch
  URL and does not contain \<open>/videos\<close> anywhere, the result is the identifier without its
  trailing slashes, followed by \<open>/videos\<close>.
\<close>

lemma get_channel_url_appends_suffix:
  assumes "startswith (strip ident) ''http://'' \<or> startswith (strip ident) ''https://''"
    and "\<not> contains (strip ident) ''youtube.com/watch?v=''"
    and "\<not> contains (strip ident) ''/videos''"
  shows "get_channel_url ident = Some (rstrip_chars (strip ident) ''/'' @ ''/videos'')"
    and "endswith (the (get_channel_url ident)) ''/videos''"
  using assms by (auto simp: get_channel_url_def Let_def endswith_iff)

text \<open>
  C7, at the input \<open>https://www.youtube.com/c/videoshop\<close>. The identifier starts with a
  scheme and is not a watch URL, yet the normalizer returns it as it is, and the result
  does not end with \<open>/videos\<close>: the source tests whether \<open>/videos\<close> occurs anywhere in the
  identifier, here at the start of the channel name, not whether the identifier ends
  with it. The same happens to a URL that has the suffix followed by a slash.
\<close>

theorem get_channel_url_substring_test:
  "startswith (strip ''https://www.youtube.com/c/videoshop'') ''https://''
   \<and> \<not> contains (strip ''https://www.youtube.com/c/videoshop'') ''youtube.com/watch?v=''
   \<and> get_channel_url ''https://www.youtube.com/c/videoshop''
       = Some ''https://www.youtube.com/c/videoshop''
   \<and> \<not> endswith ''https://www.youtube.com/c/videoshop'' ''/videos''
   \<and> get_channel_url ''https://www.youtube.com/c/Example/videos/''
       = Some ''https://www.youtube.com/c/Example/videos/''
   \<and> \<not> endswith ''https://www.youtube.com/c/Example/videos/'' ''/videos''"
  by (simp add: normalizer_defs endswith_def)

text \<open>
  C8: the normalizer maps the five inputs of the table to the stated outputs. A full
  channel URL gets the \<open>/videos\<close> suffix, a URL that has it is unchanged, a channel ID and
  a handle are completed to the listing URL, a watch URL is unchanged.
\<close>

theorem get_channel_url_table:
  "get_channel_url ''https://www.youtube.com/c/Example''
     = Some ''https://www.youtube.com/c/Example/videos''
   \<and> get_channel_url ''https://www.youtube.com/c/Example/videos''
     = Some ''https://www.youtube.com/c/Example/videos''
   \<and> get_channel_url ''UC1234567890''
     = Some ''https://www.youtube.com/channel/UC1234567890/videos''
   \<and> get_channel_url ''@examplehandle''
     = Some ''https://www.youtube.com/@examplehandle/videos''
   \<and> get_channel_url ''https://www.youtube.com/watch?v=abc123''
     = Some ''https://www.youtube.com/watch?v=abc123''"
  by (simp add: normalizer_defs)

text \<open>
  C9: the normalizer returns \<open>None\<close>, neither a URL nor an exception, exactly when the
  trimmed identifier matches none of its rules: it starts with no URL scheme, it does not
  start with \<open>UC\<close>, and it contains no \<open>@\<close>.
\<close>

theorem get_channel_url_no_rule:
  "get_channel_url ident = None \<longleftrightarrow>
     \<not> startswith (strip ident) ''http://'' \<and> \<not> startswith (strip ident) ''https://''
     \<and> \<not> startswith (strip ident) ''UC'' \<and> \<not> contains (strip ident) ''@''"
  by (simp add: get_channel_url_def Let_def)

theorem get_channel_url_no_rule_witness:
  "\<not> startswith (strip '' examplehandle '') ''http://''
   \<and> \<not> startswith (strip '' examplehandle '') ''https://''
   \<and> \<not> startswith (strip '' examplehandle '') ''UC''
   \<and> \<not> contains (strip '' examplehandle '') ''@''
   \<and> get_channel_url '' examplehandle '' = None"
proof -
  have "\<not> startswith (strip '' examplehandle '') ''http://''
   \<and> \<not> startswith (strip '' examplehandle '') ''https://''
   \<and> \<not> startswith (strip '' examplehandle '') ''UC''
   \<and> \<not> contains (strip '' examplehandle '') ''@''"
    by (simp add: strip_def lstrip_def rstrip_def is_space_def)
  then show ?thesis
    using get_channel_url_no_rule [of "'' examplehandle ''"] by blast
qed

section \<open>Properties of the retry executor\<close>

lemma str_nat_small:
  "str_nat (Suc 0) = ''1''" "str_nat (Suc (Suc 0)) = ''2''" "str_nat (Suc (Suc (Suc 0))) = ''3''"
  "str_nat 3 = ''3''"
  by (simp_all add: str_nat.simps digit_char_def)

lemma try_body_raised:
  "attempt_error rl (fetch k) = Some exc \<Longrightarrow>
     try_body u d c rl (fetch k) = (Some exc, [FetchCall u d c, FetchDone (fetch k)])"
  by (auto simp: try_body_def attempt_error_def sleep_after_download_def asyncio_sleep_def
      split: fetch_outcome.splits option.splits if_splits)

lemma try_body_returned:
  "attempt_error rl (fetch k) = None \<Longrightarrow>
     try_body u d c rl (fetch k)
       = (None, [FetchCall u d c, FetchDone FetchOk] @ snd (sleep_after_download rl))"
  by (auto simp: try_body_def attempt_error_def split: fetch_outcome.splits prod.splits)

lemma attempt_actions_raised:
  "attempt_error rl (fetch k) = Some exc \<Longrightarrow>
     attempt_actions u d c rl fetch k
       = [FetchCall u d c, FetchDone (fetch k),
          Log WARNING (''Download attempt '' @ str_nat (k + 1) @ '' for '' @ u
                         @ '' failed: '' @ exc)]"
  by (simp add: attempt_actions_def reason_def)

lemma download_video_unfold:
  "download_video u d c rl fetch =
    (case attempt_error rl (fetch 0) of
       None \<Rightarrow> (Inr (), [FetchCall u d c, FetchDone FetchOk] @ snd (sleep_after_download rl))
     | Some e0 \<Rightarrow>
      (case attempt_error rl (fetch (Suc 0)) of
         None \<Rightarrow> (Inr (), attempt_actions u d c rl fetch 0
                      @ [FetchCall u d c, FetchDone FetchOk] @ snd (sleep_after_download rl))
       | Some e1 \<Rightarrow>
        (case attempt_error rl (fetch (Suc (Suc 0))) of
           None \<Rightarrow> (Inr (), attempt_actions u d c rl fetch 0 @ attempt_actions u d c rl fetch (Suc 0)
                      @ [FetchCall u d c, FetchDone FetchOk] @ snd (sleep_after_download rl))
         | Some e2 \<Rightarrow>
            (Inl (DownloadError (''Failed to download '' @ u @ '' after 3 retries.'')),
             attempt_actions u d c rl fetch 0 @ attempt_actions u d c rl fetch (Suc 0)
               @ attempt_actions u d c rl fetch (Suc (Suc 0))))))"
  by (simp add: download_video_def download_video_loop.simps [of _ _ _ _ _ 0]
      download_video_loop.simps [of _ _ _ _ _ "Suc 0"] download_video_loop.simps [of _ _ _ _ _ "Suc (Suc 0)"]
      RETRY_LIMIT_def str_nat_small try_body_raised try_body_returned attempt_actions_raised
      split: option.splits)

lemma failed_attempts_unfold:
  "failed_attempts rl fetch =
     (if attempt_error rl (fetch 0) = None then 0
      else if attempt_error rl (fetch (Suc 0)) = None then Suc 0
      else if attempt_error rl (fetch (Suc (Suc 0))) = None then Suc (Suc 0)
      else Suc (Suc (Suc 0)))"
  by (simp add: failed_attempts_def RETRY_LIMIT_def upt_rec numeral_2_eq_2 numeral_3_eq_3)


lemma download_video_closed_form:
  "download_video u d c rl fetch =
     (if failed_attempts rl fetch < RETRY_LIMIT then Inr ()
      else Inl (DownloadError (''Failed to download '' @ u @ '' after 3 retries.'')),
      concat (map (attempt_actions u d c rl fetch) [0..<failed_attempts rl fetch])
      @ (if failed_attempts rl fetch < RETRY_LIMIT
         then [FetchCall u d c, FetchDone FetchOk] @ snd (sleep_after_download rl) else []))"
  by (simp add: download_video_unfold failed_attempts_unfold RETRY_LIMIT_def upt_rec
      split: option.splits)








lemma attempt_error_fetch_raised:
  "fetched \<noteq> FetchOk \<Longrightarrow> attempt_error rl fetched \<noteq> None"
  by (simp add: attempt_error_def split: fetch_outcome.splits)

lemma failed_attempts_all_fetches_fail:
  "\<forall>k<RETRY_LIMIT. fetch k \<noteq> FetchOk \<Longrightarrow> failed_attempts rl fetch = RETRY_LIMIT"
  by (simp add: failed_attempts_unfold RETRY_LIMIT_def attempt_error_fetch_raised)

lemma failed_attempts_raises:
  "\<not> sleep_returns rl \<Longrightarrow> failed_attempts rl fetch = RETRY_LIMIT"
  by (simp add: failed_attempts_unfold RETRY_LIMIT_def attempt_error_def sleep_returns_def
      split: fetch_outcome.splits)




lemma fetch_calls_simps [simp]:
  "fetch_calls [] = 0"
  "fetch_calls (a # tr) = (if is_fetch_call a then 1 else 0) + fetch_calls tr"
  by (simp_all add: fetch_calls_def)

lemma sleeps_simps [simp]:
  "sleeps [] = []"
  "sleeps (a # tr) = sleep_seconds a @ sleeps tr"
  by (simp_all add: sleeps_def)

lemma logged_simps [simp]:
  "logged l [] = []"
  "logged l (a # tr) = logged_at l a @ logged l tr"
  by (simp_all add: logged_def)

lemma fetch_calls_append [simp]: "fetch_calls (a @ b) = fetch_calls a + fetch_calls b"
  by (simp add: fetch_calls_def)

lemma sleeps_append [simp]: "sleeps (a @ b) = sleeps a @ sleeps b"
  by (simp add: sleeps_def)

lemma logged_append [simp]: "logged l (a @ b) = logged l a @ logged l b"
  by (simp add: logged_def)

lemma fetch_calls_attempts:
  "fetch_calls (concat (map (attempt_actions u d c rl fetch) ks)) = length ks"
  by (induction ks) (simp_all add: attempt_actions_def)





lemma sleep_after_download_cases:
  "snd (sleep_after_download rl) = [] \<or> (\<exists>r. rl = Some r \<and> snd (sleep_after_download rl) = [SleepCall r, SleepDone])"
  by (simp add: sleep_after_download_def asyncio_sleep_def split: option.splits)









section \<open>Properties of the metadata gate\<close>

text \<open>
  C4: a probe that raises gives the metadata \<open>None\<close>, the exception goes no further. For an
  item whose metadata is \<open>None\<close>, \<open>sem_download\<close> returns normally having taken the slot,
  probed, logged the warning \<open>Skipping download (metadata fetch failed)\<close> with the URL and
  released the slot: it starts no fetch and logs nothing at error level.
\<close>

theorem sem_download_probe_failure:
  "fst (fetch_video_metadata video_url (ProbeRaised exc)) = None
   \<and> (fst (fetch_video_metadata video_url probe) = None \<longrightarrow>
        sem_download video_url download_dir rate_limit probe fetch =
          (Inr (),
           [SemAcquire, ProbeCall video_url, ProbeDone probe,
            Log WARNING (''Skipping download (metadata fetch failed): '' @ video_url),
            SemRelease])
        \<and> fetch_calls (snd (sem_download video_url download_dir rate_limit probe fetch)) = 0
        \<and> logged ERROR (snd (sem_download video_url download_dir rate_limit probe fetch)) = [])"
  by (auto simp: sem_download_def fetch_video_metadata_def split: probe_outcome.splits)

theorem sem_download_probe_failure_witness:
  "fst (fetch_video_metadata ''u'' (ProbeRaised ''gone'')) = None
   \<and> sem_download ''u'' ''d'' (Some 5) (ProbeRaised ''gone'') (\<lambda>k. FetchOk) =
       (Inr (),
        [SemAcquire, ProbeCall ''u'', ProbeDone (ProbeRaised ''gone''),
         Log WARNING ''Skipping download (metadata fetch failed): u'', SemRelease])
   \<and> fetch_calls (snd (sem_download ''u'' ''d'' (Some 5) (ProbeRaised ''gone'') (\<lambda>k. FetchOk))) = 0"
  using sem_download_probe_failure
          [where video_url = "''u''" and exc = "''gone''" and probe = "ProbeRaised ''gone''"
             and download_dir = "''d''" and rate_limit = "Some 5" and fetch = "\<lambda>k. FetchOk"]
  by simp

section \<open>Properties of the entry path\<close>

lemmas loop_defs = step_def new_task_def advance_def Let_def pbar_update_def

lemma probes_simps [simp]:
  "probes [] = 0"
  "probes (a # tr) = probe_calls a + probes tr"
  "probes (tr @ tr') = probes tr + probes tr'"
  by (simp_all add: probes_def)

lemma probes_attempts: "probes (concat (map (attempt_actions u d c rl fetch) ks)) = 0"
  by (induction ks) (simp_all add: attempt_actions_def)

lemma probes_download_video: "probes (snd (download_video u d c rl fetch)) = 0"
  using sleep_after_download_cases [of rl]
  by (auto simp: download_video_closed_form probes_attempts)

lemma download_video_starts_with_fetch:
  "take 1 (snd (download_video u d c rl fetch)) = [FetchCall u d c]"
proof (cases "failed_attempts rl fetch")
  case 0
  then show ?thesis by (simp add: download_video_closed_form RETRY_LIMIT_def)
next
  case (Suc k)
  then have "[0..<failed_attempts rl fetch] = 0 # [1..<Suc k]" by (simp add: upt_rec)
  then show ?thesis by (simp add: download_video_closed_form attempt_actions_def)
qed

lemma download_video_with_retries_trace:
  "\<exists>logs. snd (download_video_with_retries u d c rl fetch)
            = snd (download_video u d c rl fetch) @ logs
          \<and> fetch_calls logs = 0 \<and> probes logs = 0"
  by (auto simp: download_video_with_retries_def split: prod.splits sum.splits error.splits)

lemma download_video_with_retries_returns:
  "fst (download_video_with_retries u d c rl fetch) = Inr ()"
  by (auto simp: download_video_with_retries_def split: prod.splits sum.splits error.splits)

lemma probes_download_video_with_retries:
  "probes (snd (download_video_with_retries u d c rl fetch)) = 0"
  using download_video_with_retries_trace [of u d c rl fetch] probes_download_video [of u d c rl fetch]
  by auto

lemma probes_spawn_loop:
  "probes (concat (map (\<lambda>(i, video_url).
        [SemAcquire, CreateTask (snd (download_video_with_retries video_url d c rl (fetch i))),
         SemRelease]) ivs)) = 0"
  by (induction ivs) (auto simp: probes_download_video_with_retries probes_def [symmetric])

lemma spawned_simps [simp]:
  "spawned [] = []"
  "spawned (a # tr) = created a @ spawned tr"
  "spawned (tr @ tr') = spawned tr @ spawned tr'"
  by (simp_all add: spawned_def)

lemma spawned_spawn_loop:
  "spawned (concat (map (\<lambda>(i, video_url).
        [SemAcquire, CreateTask (snd (download_video_with_retries video_url d c rl (fetch i))),
         SemRelease]) ivs))
   = map (\<lambda>(i, video_url). snd (download_video_with_retries video_url d c rl (fetch i))) ivs"
  by (induction ivs) auto

lemma gather_all_ok: "(\<forall>r \<in> set rs. r = Inr ()) \<Longrightarrow> gather rs = Inr ()"
proof -
  assume "\<forall>r \<in> set rs. r = Inr ()"
  then have "filter isl rs = []" by (induction rs) auto
  then show ?thesis by (simp add: gather_def)
qed


lemma downloads_return:
  "gather (map fst (map (\<lambda>(i, video_url). download_video_with_retries video_url d c rl (fetch i))
                      ivs)) = Inr ()"
  by (intro gather_all_ok) (auto simp: download_video_with_retries_returns)

lemma downloads_spawn:
  "map (\<lambda>download. [SemAcquire, CreateTask (snd download), SemRelease])
       (map (\<lambda>(i, video_url). download_video_with_retries video_url d c rl (fetch i)) ivs)
   = map (\<lambda>(i, video_url).
            [SemAcquire, CreateTask (snd (download_video_with_retries video_url d c rl (fetch i))),
             SemRelease]) ivs"
  by (induction ivs) auto

lemma process_channel_unfold:
  "process_channel channel_config dd ck rl lister fetch =
     (case channel_listing channel_config lister of
        Inl e \<Rightarrow>
          (Inl e,
           (case channel_config ''url'' of
              None \<Rightarrow> []
            | Some ident \<Rightarrow>
                [Log INFO (''Processing channel URL: '' @ str_opt (get_channel_url ident))]))
      | Inr video_urls \<Rightarrow>
          (Inr (),
           [Log INFO (''Processing channel URL: ''
                        @ str_opt (get_channel_url (the (channel_config ''url'')))),
            Log INFO (''Found '' @ str_nat (length video_urls) @ '' videos in channel: ''
                        @ str_opt (get_channel_url (the (channel_config ''url''))))]
           @ concat (map (\<lambda>(i, video_url).
                            [SemAcquire,
                             CreateTask (snd (download_video_with_retries video_url
                                (case channel_config ''download_directory'' of
                                   Some d \<Rightarrow> d | None \<Rightarrow> dd) ck rl (fetch i))),
                             SemRelease])
                         (enumerate 0 video_urls))
           @ [Gather,
              Log INFO (''Completed processing channel: ''
                          @ str_opt (get_channel_url (the (channel_config ''url''))))]))"
  by (simp add: process_channel_def channel_listing_def Let_def downloads_return downloads_spawn
      del: map_map split: option.splits sum.splits)

lemma probes_process_channel:
  "probes (snd (process_channel channel_config dd ck rl lister fetch)) = 0"
  by (simp add: process_channel_unfold probes_spawn_loop split: sum.splits option.splits)

lemma probes_channel_tasks:
  "probes (concat (map todo (map (\<lambda>r. new_task (snd r) False)
       (map (\<lambda>(c, channel_config). process_channel channel_config dd ck rl lister (fetch c))
          ics)))) = 0"
  by (induction ics) (auto simp: new_task_def probes_process_channel)

lemmas listing_defs =
  channel_listing_def list_videos_in_channel_def entry_video_url_def normalizer_defs

lemma download_video_with_retries_all_fail:
  "(\<forall>k<RETRY_LIMIT. fetch k \<noteq> FetchOk) \<Longrightarrow>
     download_video_with_retries u d c rl fetch =
       (Inr (),
        concat (map (attempt_actions u d c rl fetch) [0..<RETRY_LIMIT])
        @ [Log ERROR (''Failed to download video '' @ u @ '' after retries: ''
                        @ ''Failed to download '' @ u @ '' after 3 retries.'')])"
proof -
  assume a: "\<forall>k<RETRY_LIMIT. fetch k \<noteq> FetchOk"
  have "failed_attempts rl fetch = RETRY_LIMIT"
    using a by (rule failed_attempts_all_fetches_fail)
  then show ?thesis
    by (simp add: download_video_with_retries_def download_video_closed_form)
qed

lemma probes_sem_download: "probes (snd (sem_download u d rl probe fetch)) = 1"
  using probes_download_video [of u d None rl fetch]
  by (auto simp: sem_download_def fetch_video_metadata_def
      split: probe_outcome.splits option.splits prod.splits sum.splits error.splits)

lemma probes_item_tasks:
  "probes (concat (map todo (map (\<lambda>(i, video_url).
       new_task (snd (sem_download video_url d rl (probe i) (fetch i))) True) ivs))) = length ivs"
  by (induction ivs) (auto simp: new_task_def probes_sem_download)

lemma main_async_tasks:
  "0 \<le> m \<Longrightarrow>
   tasks (loop (main_async (Inr cfg) m rl lister fetch)) =
     map (\<lambda>(c, channel_config).
            new_task (snd (process_channel channel_config
                             (if default_directories cfg \<noteq> [] then hd (default_directories cfg)
                              else ''.'')
                             (cookies_file cfg) rl lister (fetch c))) False)
         (enumerate 0 (channels cfg))"
  by (simp add: main_async_def Let_def case_prod_unfold)

lemma spawned_process_channel:
  "channel_listing channel_config lister = Inr video_urls \<Longrightarrow>
     spawned (snd (process_channel channel_config dd ck rl lister fetch))
       = map (\<lambda>(i, video_url).
                snd (download_video_with_retries video_url
                       (case channel_config ''download_directory'' of
                          Some d \<Rightarrow> d | None \<Rightarrow> dd)
                       ck rl (fetch i)))
             (enumerate 0 video_urls)"
  by (simp add: process_channel_unfold spawned_spawn_loop)

text \<open>
  C5: on the entry path no probe is ever made. The tasks that \<open>main_async\<close> starts are
  the coroutines of \<open>process_channel\<close>, one for every channel of the configuration in
  order, with the default directory, the cookies file and the rate limit of the run; they
  and the tasks they create contain no probe. The task of a channel whose listing
  succeeds creates, for every listed video in order, the task of
  \<open>download_video_with_retries\<close> on that URL, whose actions are those of \<open>download_video\<close>
  followed by log lines only: its first action is the fetch of the URL. An item whose
  fetches all fail therefore uses the whole retry budget of \<open>RETRY_LIMIT\<close> fetches. The
  probe is made in \<open>download_videos_in_channel\<close> only, once by each of its tasks.
\<close>

theorem entry_path_never_probes:
  "probes (concat (map todo (tasks (loop (main_async loaded max_concurrent_downloads rate_limit
                                             lister fetch_run))))) = 0
   \<and> (0 \<le> max_concurrent_downloads \<longrightarrow>
        tasks (loop (main_async (Inr cfg) max_concurrent_downloads rate_limit lister fetch_run))
        = map (\<lambda>(c, channel_config).
                 new_task (snd (process_channel channel_config
                                  (if default_directories cfg \<noteq> []
                                   then hd (default_directories cfg) else ''.'')
                                  (cookies_file cfg) rate_limit lister (fetch_run c))) False)
              (enumerate 0 (channels cfg)))
   \<and> (0 \<le> max_concurrent_downloads \<and> c < length (channels cfg)
        \<and> channel_listing (channels cfg ! c) lister = Inr listed \<longrightarrow>
        spawned (todo (tasks (loop (main_async (Inr cfg) max_concurrent_downloads rate_limit
                                      lister fetch_run)) ! c))
        = map (\<lambda>(i, video_url).
                 snd (download_video_with_retries video_url
                        (case (channels cfg ! c) ''download_directory'' of
                           Some d \<Rightarrow> d
                         | None \<Rightarrow> if default_directories cfg \<noteq> []
                                    then hd (default_directories cfg) else ''.'')
                        (cookies_file cfg) rate_limit (fetch_run c i)))
              (enumerate 0 listed))
   \<and> (channel_listing channel_config lister = Inr video_urls \<longrightarrow>
        spawned (snd (process_channel channel_config default_directory cookies rate_limit
                        lister fetch_items))
        = map (\<lambda>(i, video_url).
                 snd (download_video_with_retries video_url
                        (case channel_config ''download_directory'' of
                           Some d \<Rightarrow> d | None \<Rightarrow> default_directory)
                        cookies rate_limit (fetch_items i)))
              (enumerate 0 video_urls))
   \<and> (\<exists>logs. snd (download_video_with_retries video_url download_directory cookies rate_limit fetch)
              = snd (download_video video_url download_directory cookies rate_limit fetch) @ logs
            \<and> fetch_calls logs = 0 \<and> probes logs = 0)
   \<and> take 1 (snd (download_video_with_retries video_url download_directory cookies rate_limit fetch))
       = [FetchCall video_url download_directory cookies]
   \<and> probes (snd (download_video_with_retries video_url download_directory cookies rate_limit fetch))
       = 0
   \<and> ((\<forall>k<RETRY_LIMIT. fetch k \<noteq> FetchOk) \<longrightarrow>
        fetch_calls (snd (download_video_with_retries video_url download_directory cookies
                            rate_limit fetch)) = RETRY_LIMIT)
   \<and> (download_videos_in_channel channel_videos download_dir max_concurrent rate_limit
         probe fetch_items = Inr initial \<longrightarrow>
        probes (concat (map todo (tasks initial))) = length channel_videos)"
proof -
  have main: "probes (concat (map todo (tasks (loop (main_async loaded max_concurrent_downloads
                  rate_limit lister fetch_run))))) = 0"
    by (cases loaded) (simp_all add: main_async_def Let_def probes_channel_tasks del: map_map)
  have started: "0 \<le> max_concurrent_downloads \<longrightarrow>
        tasks (loop (main_async (Inr cfg) max_concurrent_downloads rate_limit lister fetch_run))
        = map (\<lambda>(c, channel_config).
                 new_task (snd (process_channel channel_config
                                  (if default_directories cfg \<noteq> []
                                   then hd (default_directories cfg) else ''.'')
                                  (cookies_file cfg) rate_limit lister (fetch_run c))) False)
              (enumerate 0 (channels cfg))"
    by (simp add: main_async_tasks)
  have created: "spawned (todo (tasks (loop (main_async (Inr cfg) max_concurrent_downloads
                                      rate_limit lister fetch_run)) ! c))
        = map (\<lambda>(i, video_url).
                 snd (download_video_with_retries video_url
                        (case (channels cfg ! c) ''download_directory'' of
                           Some d \<Rightarrow> d
                         | None \<Rightarrow> if default_directories cfg \<noteq> []
                                    then hd (default_directories cfg) else ''.'')
                        (cookies_file cfg) rate_limit (fetch_run c i)))
              (enumerate 0 listed)"
    if m: "0 \<le> max_concurrent_downloads" and c: "c < length (channels cfg)"
      and l: "channel_listing (channels cfg ! c) lister = Inr listed"
  proof -
    have "todo (tasks (loop (main_async (Inr cfg) max_concurrent_downloads rate_limit
                                lister fetch_run)) ! c)
            = snd (process_channel (channels cfg ! c)
                     (if default_directories cfg \<noteq> [] then hd (default_directories cfg)
                      else ''.'')
                     (cookies_file cfg) rate_limit lister (fetch_run c))"
      using c by (simp add: main_async_tasks [OF m] nth_enumerate_eq new_task_def)
    then show ?thesis
      by (simp add: spawned_process_channel [OF l])
  qed
  have spawn: "channel_listing channel_config lister = Inr video_urls \<longrightarrow>
        spawned (snd (process_channel channel_config default_directory cookies rate_limit
                        lister fetch_items))
        = map (\<lambda>(i, video_url).
                 snd (download_video_with_retries video_url
                        (case channel_config ''download_directory'' of
                           Some d \<Rightarrow> d | None \<Rightarrow> default_directory)
                        cookies rate_limit (fetch_items i)))
              (enumerate 0 video_urls)"
    by (simp add: spawned_process_channel)
  obtain logs where logs:
    "snd (download_video_with_retries video_url download_directory cookies rate_limit fetch)
       = snd (download_video video_url download_directory cookies rate_limit fetch) @ logs"
    "fetch_calls logs = 0" "probes logs = 0"
    using download_video_with_retries_trace by blast
  have nonempty: "snd (download_video video_url download_directory cookies rate_limit fetch) \<noteq> []"
    using download_video_starts_with_fetch [of video_url download_directory cookies rate_limit fetch]
    by auto
  have start: "take 1 (snd (download_video_with_retries video_url download_directory cookies
                  rate_limit fetch)) = [FetchCall video_url download_directory cookies]"
    using download_video_starts_with_fetch [of video_url download_directory cookies rate_limit fetch]
      nonempty by (cases "snd (download_video video_url download_directory cookies rate_limit fetch)")
        (simp_all add: logs(1))
  have budget: "(\<forall>k<RETRY_LIMIT. fetch k \<noteq> FetchOk) \<longrightarrow>
        fetch_calls (snd (download_video_with_retries video_url download_directory cookies
                            rate_limit fetch)) = RETRY_LIMIT"
    by (simp add: download_video_with_retries_all_fail fetch_calls_attempts)
  have gate: "download_videos_in_channel channel_videos download_dir max_concurrent rate_limit
         probe fetch_items = Inr initial \<longrightarrow>
        probes (concat (map todo (tasks initial))) = length channel_videos"
    by (auto simp: download_videos_in_channel_def probes_item_tasks simp del: map_map
        split: if_splits)
  show ?thesis
    using main started created spawn logs start budget gate probes_download_video_with_retries
    by blast
qed

text \<open>
  At a run of one channel with one video whose fetches all fail: the loop of \<open>main_async\<close>
  has the task of \<open>process_channel\<close> for the channel, that task creates the task of
  \<open>download_video_with_retries\<close> for the video, which starts with the fetch and fetches three
  times; after the four steps of the channel task up to the creation, the new task of the
  loop has these actions to do.
\<close>

theorem entry_path_never_probes_witness:
  "channel_listing [''url'' \<mapsto> ''UCx''] (\<lambda>u. Listed [Some [(''id'', ''a'')]])
     = Inr [''https://www.youtube.com/watch?v=a'']
   \<and> tasks (loop (main_async
                    (Inr \<lparr>channels = [[''url'' \<mapsto> ''UCx'']], default_directories = [''out''],
                          cookies_file = None\<rparr>)
                    3 None (\<lambda>u. Listed [Some [(''id'', ''a'')]]) (\<lambda>c i k. FetchRaised ''boom'')))
       = [new_task (snd (process_channel [''url'' \<mapsto> ''UCx''] ''out'' None None
                           (\<lambda>u. Listed [Some [(''id'', ''a'')]]) (\<lambda>i k. FetchRaised ''boom'')))
            False]
   \<and> spawned (todo (tasks (loop (main_async
                    (Inr \<lparr>channels = [[''url'' \<mapsto> ''UCx'']], default_directories = [''out''],
                          cookies_file = None\<rparr>)
                    3 None (\<lambda>u. Listed [Some [(''id'', ''a'')]]) (\<lambda>c i k. FetchRaised ''boom'')))
                 ! 0))
       = [snd (download_video_with_retries ''https://www.youtube.com/watch?v=a'' ''out'' None None
                 (\<lambda>k. FetchRaised ''boom''))]
   \<and> take 1 (snd (download_video_with_retries ''https://www.youtube.com/watch?v=a'' ''out''
                    None None (\<lambda>k. FetchRaised ''boom'')))
       = [FetchCall ''https://www.youtube.com/watch?v=a'' ''out'' None]
   \<and> fetch_calls (snd (download_video_with_retries ''https://www.youtube.com/watch?v=a'' ''out''
                          None None (\<lambda>k. FetchRaised ''boom''))) = 3
   \<and> probes (snd (download_video_with_retries ''https://www.youtube.com/watch?v=a'' ''out''
                     None None (\<lambda>k. FetchRaised ''boom''))) = 0
   \<and> map todo (tl (tasks (run_loop [0, 0, 0, 0] (loop (main_async
                    (Inr \<lparr>channels = [[''url'' \<mapsto> ''UCx'']], default_directories = [''out''],
                          cookies_file = None\<rparr>)
                    3 None (\<lambda>u. Listed [Some [(''id'', ''a'')]])
                    (\<lambda>c i k. FetchRaised ''boom''))))))
       = [snd (download_video_with_retries ''https://www.youtube.com/watch?v=a'' ''out'' None None
                 (\<lambda>k. FetchRaised ''boom''))]"
proof -
  let ?cfg = "\<lparr>channels = [[''url'' \<mapsto> ''UCx'']], default_directories = [''out''],
               cookies_file = None\<rparr>"
  let ?lister = "\<lambda>u :: string. Listed [Some [(''id'', ''a'')]]"
  let ?dl = "snd (download_video_with_retries ''https://www.youtube.com/watch?v=a'' ''out''
                    None None (\<lambda>k. FetchRaised ''boom''))"
  have listing: "channel_listing [''url'' \<mapsto> ''UCx''] ?lister
     = Inr [''https://www.youtube.com/watch?v=a'']"
    by (simp add: listing_defs)
  have fails: "\<forall>k<RETRY_LIMIT. (\<lambda>k. FetchRaised ''boom'') k \<noteq> FetchOk"
    by simp
  have general:
    "tasks (loop (main_async (Inr ?cfg) 3 None ?lister (\<lambda>c i k. FetchRaised ''boom'')))
       = [new_task (snd (process_channel [''url'' \<mapsto> ''UCx''] ''out'' None None ?lister
                           (\<lambda>i k. FetchRaised ''boom''))) False]
     \<and> spawned (todo (tasks (loop (main_async (Inr ?cfg) 3 None ?lister
                                      (\<lambda>c i k. FetchRaised ''boom''))) ! 0)) = [?dl]
     \<and> take 1 ?dl = [FetchCall ''https://www.youtube.com/watch?v=a'' ''out'' None]
     \<and> fetch_calls ?dl = 3 \<and> probes ?dl = 0"
    using listing fails
      entry_path_never_probes
        [where channel_config = "[''url'' \<mapsto> ''UCx'']"
           and lister = ?lister
           and video_urls = "[''https://www.youtube.com/watch?v=a'']"
           and listed = "[''https://www.youtube.com/watch?v=a'']"
           and default_directory = "''out''" and cookies = None and rate_limit = None
           and fetch_items = "\<lambda>i k. FetchRaised ''boom''"
           and video_url = "''https://www.youtube.com/watch?v=a''"
           and download_directory = "''out''" and fetch = "\<lambda>k. FetchRaised ''boom''"
           and loaded = "Inr ?cfg" and cfg = ?cfg and c = 0 and max_concurrent_downloads = 3
           and fetch_run = "\<lambda>c i k. FetchRaised ''boom''"
           and channel_videos = "[]" and download_dir = "''out''" and max_concurrent = 1
           and probe = "\<lambda>i. ProbeRaised ''gone''"
           and initial = "\<lparr>sem_value = 1, tasks = [], progress = Some \<lparr>pbar_total = 0, pbar_n = 0\<rparr>\<rparr>"]
    by (auto simp: RETRY_LIMIT_def enumerate_eq_zip upt_rec)
  have channel: "snd (process_channel [''url'' \<mapsto> ''UCx''] ''out'' None None ?lister
                           (\<lambda>i k. FetchRaised ''boom''))
      = [Log INFO ''Processing channel URL: https://www.youtube.com/channel/UCx/videos'',
         Log INFO ''Found 1 videos in channel: https://www.youtube.com/channel/UCx/videos'',
         SemAcquire, CreateTask ?dl, SemRelease, Gather,
         Log INFO ''Completed processing channel: https://www.youtube.com/channel/UCx/videos'']"
    by (simp add: process_channel_unfold listing normalizer_defs str_opt_def enumerate_eq_zip
        upt_rec str_nat.simps digit_char_def)
  have run: "map todo (tl (tasks (run_loop [0, 0, 0, 0]
               (loop (main_async (Inr ?cfg) 3 None ?lister (\<lambda>c i k. FetchRaised ''boom''))))))
             = [?dl]"
    by (simp add: main_async_tasks enumerate_eq_zip upt_rec channel main_async_def run_loop_def
        loop_defs)
  from listing general run show ?thesis by blast
qed

section \<open>Properties of the run\<close>





section \<open>Properties of the event loop\<close>

lemma run_loop_simps [simp]:
  "run_loop [] s = s"
  "run_loop (i # sch) s = run_loop sch (step i s)"
  "run_loop (sch @ sch') s = run_loop sch' (run_loop sch s)"
  by (simp_all add: run_loop_def)

lemma step_cases [case_names idle callback finish acquire release create advance]:
  obtains
    (idle) "step i s = s"
  | (callback) t where "i < length (tasks s)" "tasks s ! i = t" "finished t" "has_callback t"
      "\<not> callback_ran t"
      "step i s = s\<lparr>tasks := (tasks s)[i := t\<lparr>callback_ran := True\<rparr>],
                    progress := map_option (\<lambda>p. pbar_update p 1) (progress s)\<rparr>"
  | (finish) t where "i < length (tasks s)" "tasks s ! i = t" "\<not> finished t" "todo t = []"
      "step i s = s\<lparr>tasks := (tasks s)[i := t\<lparr>finished := True\<rparr>]\<rparr>"
  | (acquire) t rest where "i < length (tasks s)" "tasks s ! i = t" "\<not> finished t"
      "todo t = SemAcquire # rest" "sem_value s > 0"
      "step i s = s\<lparr>sem_value := sem_value s - 1, tasks := (tasks s)[i := advance t]\<rparr>"
  | (release) t rest where "i < length (tasks s)" "tasks s ! i = t" "\<not> finished t"
      "todo t = SemRelease # rest"
      "step i s = s\<lparr>sem_value := sem_value s + 1, tasks := (tasks s)[i := advance t]\<rparr>"
  | (create) t acts rest where "i < length (tasks s)" "tasks s ! i = t" "\<not> finished t"
      "todo t = CreateTask acts # rest"
      "step i s = s\<lparr>tasks :=
                        (tasks s)[i := (advance t)\<lparr>children := children t @ [length (tasks s)]\<rparr>]
                          @ [new_task acts False]\<rparr>"
  | (advance) t a rest where "i < length (tasks s)" "tasks s ! i = t" "\<not> finished t"
      "todo t = a # rest" "a \<noteq> SemAcquire" "a \<noteq> SemRelease" "\<forall>acts. a \<noteq> CreateTask acts"
      "step i s = s\<lparr>tasks := (tasks s)[i := advance t]\<rparr>"
proof (cases "i < length (tasks s) \<and> \<not> finished (tasks s ! i)")
  case False
  show ?thesis
  proof (cases "i < length (tasks s) \<and> has_callback (tasks s ! i) \<and> \<not> callback_ran (tasks s ! i)")
    case pending: True
    with False show ?thesis
      by (intro callback [of "tasks s ! i"]) (auto simp: step_def Let_def)
  next
    case none: False
    with False have "step i s = s" by (auto simp: step_def Let_def)
    then show ?thesis by (rule idle)
  qed
next
  case True
  show ?thesis
  proof (cases "todo (tasks s ! i)")
    case Nil
    with True show ?thesis by (intro finish [of "tasks s ! i"]) (auto simp: step_def Let_def)
  next
    case (Cons a rest)
    show ?thesis
    proof (cases a)
      case SemAcquire
      show ?thesis
      proof (cases "sem_value s > 0")
        case pos: True
        with True Cons SemAcquire show ?thesis
          by (intro acquire [of "tasks s ! i" rest]) (auto simp: step_def Let_def)
      next
        case zero: False
        with True Cons SemAcquire have "step i s = s" by (auto simp: step_def Let_def)
        then show ?thesis by (rule idle)
      qed
    next
      case SemRelease
      with True Cons show ?thesis
        by (intro release [of "tasks s ! i" rest]) (auto simp: step_def Let_def)
    next
      case (CreateTask acts)
      with True Cons show ?thesis
        by (intro create [of "tasks s ! i" acts rest]) (auto simp: step_def Let_def)
    next
      case Gather
      show ?thesis
      proof (cases "list_all (\<lambda>c. finished (tasks s ! c)) (children (tasks s ! i))")
        case ready: True
        with True Cons Gather show ?thesis
          by (intro advance [of "tasks s ! i" a rest]) (auto simp: step_def Let_def)
      next
        case waiting: False
        with True Cons Gather have "step i s = s" by (auto simp: step_def Let_def)
        then show ?thesis by (rule idle)
      qed
    qed (use True Cons in \<open>(intro advance [of "tasks s ! i" a rest]; auto simp: step_def Let_def)+\<close>)
  qed
qed

lemma count_update:
  "i < length xs \<Longrightarrow>
     length (filter P (xs[i := y])) + (if P (xs ! i) then 1 else 0)
       = length (filter P xs) + (if P y then 1 else 0)"
proof -
  assume i: "i < length xs"
  have 1: "xs = take i xs @ xs ! i # drop (Suc i) xs" using i by (rule id_take_nth_drop)
  have 2: "xs[i := y] = take i xs @ y # drop (Suc i) xs" using i by (rule upd_conv_take_nth_drop)
  have "length (filter P xs) = length (filter P (take i xs)) + (if P (xs ! i) then 1 else 0)
          + length (filter P (drop (Suc i) xs))"
    by (subst 1) simp
  moreover have "length (filter P (xs[i := y])) = length (filter P (take i xs))
          + (if P y then 1 else 0) + length (filter P (drop (Suc i) xs))"
    by (subst 2) simp
  ultimately show ?thesis by simp
qed

lemma advance_fields [simp]:
  "finished (advance t) = finished t" "has_callback (advance t) = has_callback t"
  "callback_ran (advance t) = callback_ran t"
  by (simp_all add: advance_def split: list.splits)

lemma list_all_update:
  "list_all P xs \<Longrightarrow> P y \<Longrightarrow> list_all P (xs[i := y])"
  by (induction xs arbitrary: i) (auto split: nat.splits)

lemma item_tasks_step: "item_tasks (step i s) = item_tasks s"
proof (cases i s rule: step_cases)
  case idle
  then show ?thesis by simp
next
  case (callback t)
  then show ?thesis
    using count_update [of i "tasks s" has_callback "t\<lparr>callback_ran := True\<rparr>"]
    by (simp add: item_tasks_def)
next
  case (finish t)
  then show ?thesis
    using count_update [of i "tasks s" has_callback "t\<lparr>finished := True\<rparr>"]
    by (simp add: item_tasks_def)
next
  case (acquire t rest)
  then show ?thesis
    using count_update [of i "tasks s" has_callback "advance t"] by (simp add: item_tasks_def)
next
  case (release t rest)
  then show ?thesis
    using count_update [of i "tasks s" has_callback "advance t"] by (simp add: item_tasks_def)
next
  case (create t acts rest)
  then show ?thesis
    using count_update [of i "tasks s" has_callback
        "(advance t)\<lparr>children := children t @ [length (tasks s)]\<rparr>"]
    by (simp add: item_tasks_def new_task_def)
next
  case (advance t a rest)
  then show ?thesis
    using count_update [of i "tasks s" has_callback "advance t"] by (simp add: item_tasks_def)
qed

lemma counted_items_step:
  "(counted_items (step i s) = counted_items s \<and> progress (step i s) = progress s)
   \<or> (counted_items (step i s) = counted_items s + 1
       \<and> progress (step i s) = map_option (\<lambda>p. pbar_update p 1) (progress s))"
proof (cases i s rule: step_cases)
  case idle
  then show ?thesis by simp
next
  case (callback t)
  then show ?thesis
    using count_update [of i "tasks s" callback_ran "t\<lparr>callback_ran := True\<rparr>"]
    by (auto simp add: counted_items_def)
next
  case (finish t)
  then show ?thesis
    using count_update [of i "tasks s" callback_ran "t\<lparr>finished := True\<rparr>"]
    by (auto simp add: counted_items_def)
next
  case (acquire t rest)
  then show ?thesis
    using count_update [of i "tasks s" callback_ran "advance t"]
    by (simp add: counted_items_def)
next
  case (release t rest)
  then show ?thesis
    using count_update [of i "tasks s" callback_ran "advance t"]
    by (simp add: counted_items_def)
next
  case (create t acts rest)
  then show ?thesis
    using count_update [of i "tasks s" callback_ran
        "(advance t)\<lparr>children := children t @ [length (tasks s)]\<rparr>"]
    by (simp add: counted_items_def new_task_def)
next
  case (advance t a rest)
  then show ?thesis
    using count_update [of i "tasks s" callback_ran "advance t"]
    by (simp add: counted_items_def)
qed

lemma counted_items_callback:
  assumes "i < length (tasks s)" "finished (tasks s ! i)" "has_callback (tasks s ! i)"
  shows "counted_items (step i s)
           = counted_items s + (if callback_ran (tasks s ! i) then 0 else 1)"
    and "callback_ran (tasks (step i s) ! i)"
proof -
  show "counted_items (step i s)
           = counted_items s + (if callback_ran (tasks s ! i) then 0 else 1)"
    using assms count_update [of i "tasks s" callback_ran "(tasks s ! i)\<lparr>callback_ran := True\<rparr>"]
    by (cases "callback_ran (tasks s ! i)") (simp_all add: counted_items_def step_def Let_def)
  show "callback_ran (tasks (step i s) ! i)"
    using assms by (simp add: step_def Let_def)
qed

lemma counted_items_not_finished:
  assumes "list_all (\<lambda>t. callback_ran t \<longrightarrow> finished t \<and> has_callback t) (tasks s)"
    and "\<not> (i < length (tasks s) \<and> finished (tasks s ! i))"
  shows "counted_items (step i s) = counted_items s"
proof (cases i s rule: step_cases)
  case idle
  then show ?thesis by simp
next
  case (callback t)
  then show ?thesis using assms(2) by simp
next
  case (finish t)
  then have "\<not> callback_ran t" using assms(1) by (auto simp: list_all_length)
  then show ?thesis
    using finish count_update [of i "tasks s" callback_ran "t\<lparr>finished := True\<rparr>"]
    by (simp add: counted_items_def)
next
  case (acquire t rest)
  then show ?thesis
    using count_update [of i "tasks s" callback_ran "advance t"]
    by (simp add: counted_items_def)
next
  case (release t rest)
  then show ?thesis
    using count_update [of i "tasks s" callback_ran "advance t"]
    by (simp add: counted_items_def)
next
  case (create t acts rest)
  then show ?thesis
    using count_update [of i "tasks s" callback_ran
        "(advance t)\<lparr>children := children t @ [length (tasks s)]\<rparr>"]
    by (simp add: counted_items_def new_task_def)
next
  case (advance t a rest)
  then show ?thesis
    using count_update [of i "tasks s" callback_ran "advance t"]
    by (simp add: counted_items_def)
qed

lemma callbacks_after_finish_step:
  "list_all (\<lambda>t. callback_ran t \<longrightarrow> finished t \<and> has_callback t) (tasks s) \<Longrightarrow>
   list_all (\<lambda>t. callback_ran t \<longrightarrow> finished t \<and> has_callback t) (tasks (step i s))"
proof (cases i s rule: step_cases)
  case idle
  then show "list_all (\<lambda>t. callback_ran t \<longrightarrow> finished t \<and> has_callback t) (tasks s) \<Longrightarrow> ?thesis"
    by simp
next
  case (callback t)
  then show "list_all (\<lambda>t. callback_ran t \<longrightarrow> finished t \<and> has_callback t) (tasks s) \<Longrightarrow> ?thesis"
    by (simp add: list_all_update)
next
  case (finish t)
  assume inv: "list_all (\<lambda>t. callback_ran t \<longrightarrow> finished t \<and> has_callback t) (tasks s)"
  then have "callback_ran t \<longrightarrow> has_callback t" using finish(1,2) by (auto simp: list_all_length)
  then show ?thesis using inv finish by (simp add: list_all_update)
next
  case (acquire t rest)
  assume inv: "list_all (\<lambda>t. callback_ran t \<longrightarrow> finished t \<and> has_callback t) (tasks s)"
  then have "callback_ran t \<longrightarrow> finished t \<and> has_callback t"
    using acquire(1,2) by (auto simp: list_all_length)
  then show ?thesis using inv acquire by (simp add: list_all_update)
next
  case (release t rest)
  assume inv: "list_all (\<lambda>t. callback_ran t \<longrightarrow> finished t \<and> has_callback t) (tasks s)"
  then have "callback_ran t \<longrightarrow> finished t \<and> has_callback t"
    using release(1,2) by (auto simp: list_all_length)
  then show ?thesis using inv release by (simp add: list_all_update)
next
  case (create t acts rest)
  assume inv: "list_all (\<lambda>t. callback_ran t \<longrightarrow> finished t \<and> has_callback t) (tasks s)"
  then have "callback_ran t \<longrightarrow> finished t \<and> has_callback t"
    using create(1,2) by (auto simp: list_all_length)
  then show ?thesis using inv create by (simp add: list_all_update new_task_def)
next
  case (advance t a rest)
  assume inv: "list_all (\<lambda>t. callback_ran t \<longrightarrow> finished t \<and> has_callback t) (tasks s)"
  then have "callback_ran t \<longrightarrow> finished t \<and> has_callback t"
    using advance(1,2) by (auto simp: list_all_length)
  then show ?thesis using inv advance by (simp add: list_all_update)
qed

lemma counter_ok_step: "counter_ok s \<Longrightarrow> counter_ok (step i s)"
  using counted_items_step [of i s] item_tasks_step [of i s] callbacks_after_finish_step [of s i]
  by (auto simp: counter_ok_def pbar_update_def split: option.splits)

lemma counter_ok_run: "counter_ok s \<Longrightarrow> counter_ok (run_loop sch s)"
  by (induction sch arbitrary: s) (simp_all add: counter_ok_step)

lemma item_tasks_run: "item_tasks (run_loop sch s) = item_tasks s"
  by (induction sch arbitrary: s) (simp_all add: item_tasks_step)

lemma counted_items_mono_step: "counted_items s \<le> counted_items (step i s)"
  using counted_items_step [of i s] by auto

lemma counted_items_mono: "counted_items s \<le> counted_items (run_loop sch s)"
proof (induction sch arbitrary: s)
  case Nil
  then show ?case by simp
next
  case (Cons i sch)
  have "counted_items s \<le> counted_items (step i s)" by (rule counted_items_mono_step)
  also have "\<dots> \<le> counted_items (run_loop sch (step i s))" by (rule Cons.IH)
  finally show ?case by simp
qed

lemma completed_le_items: "completed_items s \<le> item_tasks s"
proof -
  have "length (filter (\<lambda>t. finished t \<and> has_callback t) ts) \<le> length (filter has_callback ts)"
    for ts :: "task list"
    by (induction ts) auto
  then show ?thesis by (simp add: completed_items_def item_tasks_def)
qed

lemma counted_le_completed:
  "list_all (\<lambda>t. callback_ran t \<longrightarrow> finished t \<and> has_callback t) (tasks s) \<Longrightarrow>
     counted_items s \<le> completed_items s"
proof -
  have "list_all (\<lambda>t. callback_ran t \<longrightarrow> finished t \<and> has_callback t) ts \<Longrightarrow>
          length (filter callback_ran ts) \<le> length (filter (\<lambda>t. finished t \<and> has_callback t) ts)"
    for ts :: "task list"
    by (induction ts) auto
  then show "list_all (\<lambda>t. callback_ran t \<longrightarrow> finished t \<and> has_callback t) (tasks s) \<Longrightarrow>
     counted_items s \<le> completed_items s"
    by (simp add: counted_items_def completed_items_def)
qed

lemma download_videos_in_channel_initial:
  assumes "download_videos_in_channel channel_videos download_dir max_concurrent rate_limit
             probe fetch = Inr s0"
  shows "counter_ok s0" "item_tasks s0 = length channel_videos"
    "sem_value s0 = nat max_concurrent" "0 \<le> max_concurrent"
    "length (tasks s0) = length channel_videos"
proof -
  have s0: "s0 = \<lparr>sem_value = nat max_concurrent,
         tasks = map (\<lambda>(i, video_url).
                        new_task (snd (sem_download video_url download_dir rate_limit
                                         (probe i) (fetch i))) True)
                     (enumerate 0 channel_videos),
         progress = Some \<lparr>pbar_total = length channel_videos, pbar_n = 0\<rparr>\<rparr>"
    and m: "0 \<le> max_concurrent"
    using assms by (auto simp: download_videos_in_channel_def split: if_splits)
  have cb: "filter has_callback (map (\<lambda>(i, video_url). new_task (f i video_url) True) ivs)
              = map (\<lambda>(i, video_url). new_task (f i video_url) True) ivs"
    and fin: "filter callback_ran
                (map (\<lambda>(i, video_url). new_task (f i video_url) True) ivs) = []"
    and flags: "list_all (\<lambda>t. callback_ran t \<longrightarrow> finished t \<and> has_callback t)
                (map (\<lambda>(i, video_url). new_task (f i video_url) True) ivs)"
    for f :: "nat \<Rightarrow> string \<Rightarrow> action list" and ivs
    by (induction ivs) (auto simp: new_task_def)
  show "item_tasks s0 = length channel_videos"
    by (simp add: s0 item_tasks_def cb)
  then show "counter_ok s0"
    by (simp add: counter_ok_def counted_items_def s0 fin flags)
  show "sem_value s0 = nat max_concurrent" by (simp add: s0)
  show "0 \<le> max_concurrent" by (rule m)
  show "length (tasks s0) = length channel_videos" by (simp add: s0)
qed

lemma sum_update:
  fixes f :: "'a \<Rightarrow> nat"
  shows "i < length xs \<Longrightarrow>
     sum_list (map f (xs[i := y])) + f (xs ! i) = sum_list (map f xs) + f y"
proof -
  assume i: "i < length xs"
  have 1: "xs = take i xs @ xs ! i # drop (Suc i) xs" using i by (rule id_take_nth_drop)
  have 2: "xs[i := y] = take i xs @ y # drop (Suc i) xs" using i by (rule upd_conv_take_nth_drop)
  have "sum_list (map f xs) = sum_list (map f (take i xs)) + f (xs ! i)
          + sum_list (map f (drop (Suc i) xs))"
    by (subst 1) simp
  moreover have "sum_list (map f (xs[i := y])) = sum_list (map f (take i xs)) + f y
          + sum_list (map f (drop (Suc i) xs))"
    by (subst 2) simp
  ultimately show ?thesis by simp
qed

lemma slots_step:
  "sem_value s + acquired s = released s + m \<Longrightarrow>
   sem_value (step i s) + acquired (step i s) = released (step i s) + m"
proof (cases i s rule: step_cases)
  case idle
  then show "sem_value s + acquired s = released s + m \<Longrightarrow> ?thesis" by simp
next
  case (callback t)
  then show "sem_value s + acquired s = released s + m \<Longrightarrow> ?thesis"
    using sum_update [of i "tasks s" "\<lambda>t. count_list (executed t) SemAcquire"
        "t\<lparr>callback_ran := True\<rparr>"]
      sum_update [of i "tasks s" "\<lambda>t. count_list (executed t) SemRelease"
        "t\<lparr>callback_ran := True\<rparr>"]
    by (simp add: acquired_def released_def)
next
  case (finish t)
  then show "sem_value s + acquired s = released s + m \<Longrightarrow> ?thesis"
    using sum_update [of i "tasks s" "\<lambda>t. count_list (executed t) SemAcquire" "t\<lparr>finished := True\<rparr>"]
      sum_update [of i "tasks s" "\<lambda>t. count_list (executed t) SemRelease" "t\<lparr>finished := True\<rparr>"]
    by (simp add: acquired_def released_def)
next
  case (acquire t rest)
  then show "sem_value s + acquired s = released s + m \<Longrightarrow> ?thesis"
    using sum_update [of i "tasks s" "\<lambda>t. count_list (executed t) SemAcquire" "advance t"]
      sum_update [of i "tasks s" "\<lambda>t. count_list (executed t) SemRelease" "advance t"]
    by (simp add: acquired_def released_def advance_def)
next
  case (release t rest)
  then show "sem_value s + acquired s = released s + m \<Longrightarrow> ?thesis"
    using sum_update [of i "tasks s" "\<lambda>t. count_list (executed t) SemAcquire" "advance t"]
      sum_update [of i "tasks s" "\<lambda>t. count_list (executed t) SemRelease" "advance t"]
    by (simp add: acquired_def released_def advance_def)
next
  case (create t acts rest)
  then show "sem_value s + acquired s = released s + m \<Longrightarrow> ?thesis"
    using sum_update [of i "tasks s" "\<lambda>t. count_list (executed t) SemAcquire"
        "(advance t)\<lparr>children := children t @ [length (tasks s)]\<rparr>"]
      sum_update [of i "tasks s" "\<lambda>t. count_list (executed t) SemRelease"
        "(advance t)\<lparr>children := children t @ [length (tasks s)]\<rparr>"]
    by (simp add: acquired_def released_def advance_def new_task_def)
next
  case (advance t a rest)
  then show "sem_value s + acquired s = released s + m \<Longrightarrow> ?thesis"
    using sum_update [of i "tasks s" "\<lambda>t. count_list (executed t) SemAcquire" "advance t"]
      sum_update [of i "tasks s" "\<lambda>t. count_list (executed t) SemRelease" "advance t"]
    by (simp add: acquired_def released_def advance_def)
qed

lemma slots_run:
  "sem_value s + acquired s = released s + m \<Longrightarrow>
   sem_value (run_loop sch s) + acquired (run_loop sch s) = released (run_loop sch s) + m"
  by (induction sch arbitrary: s) (simp_all add: slots_step)

lemma guarded_no_create:
  "guarded (ex @ CreateTask acts # rest) \<Longrightarrow> False"
proof -
  assume "guarded (ex @ CreateTask acts # rest)"
  then obtain body where b: "ex @ CreateTask acts # rest = SemAcquire # body @ [SemRelease]"
    and nc: "\<forall>acts. CreateTask acts \<notin> set body"
    by (auto simp: guarded_def)
  have "CreateTask acts \<in> set (ex @ CreateTask acts # rest)" by simp
  then have "CreateTask acts \<in> set (SemAcquire # body @ [SemRelease])" using b by simp
  then show False using nc by auto
qed

lemma script_update [simp]:
  "todo t = a # rest \<Longrightarrow> script (advance t) = script t"
  "script (t\<lparr>finished := True\<rparr>) = script t"
  "script (t\<lparr>callback_ran := True\<rparr>) = script t"
  by (simp_all add: script_def advance_def)

lemma set_update_cases:
  "i < length xs \<Longrightarrow> x \<in> set (xs[i := y]) \<Longrightarrow> x = y \<or> x \<in> set xs"
  by (meson insertE set_update_subset_insert subsetD)

lemma items_only_step: "items_only s \<Longrightarrow> items_only (step i s)"
proof (cases i s rule: step_cases)
  case idle
  then show "items_only s \<Longrightarrow> ?thesis" by simp
next
  case (callback t)
  assume inv: "items_only s"
  have t: "guarded (script t) \<and> has_callback t"
    using inv callback(1,2) by (auto simp: items_only_def)
  show ?thesis
    unfolding items_only_def
  proof
    fix x assume "x \<in> set (tasks (step i s))"
    then have "x = t\<lparr>callback_ran := True\<rparr> \<or> x \<in> set (tasks s)"
      using callback by (auto dest: set_update_cases)
    then show "guarded (script x) \<and> has_callback x"
      using t inv by (auto simp: items_only_def)
  qed
next
  case (finish t)
  assume inv: "items_only s"
  have t: "guarded (script t) \<and> has_callback t" using inv finish(1,2) by (auto simp: items_only_def)
  show ?thesis
    unfolding items_only_def
  proof
    fix x assume "x \<in> set (tasks (step i s))"
    then have "x = t\<lparr>finished := True\<rparr> \<or> x \<in> set (tasks s)"
      using finish by (auto dest: set_update_cases)
    then show "guarded (script x) \<and> has_callback x"
      using t inv by (auto simp: items_only_def)
  qed
next
  case (acquire t rest)
  assume inv: "items_only s"
  have t: "guarded (script t) \<and> has_callback t" using inv acquire(1,2) by (auto simp: items_only_def)
  show ?thesis
    unfolding items_only_def
  proof
    fix x assume "x \<in> set (tasks (step i s))"
    then have "x = advance t \<or> x \<in> set (tasks s)"
      using acquire by (auto dest: set_update_cases)
    then show "guarded (script x) \<and> has_callback x"
      using t inv acquire(4) by (auto simp: items_only_def)
  qed
next
  case (release t rest)
  assume inv: "items_only s"
  have t: "guarded (script t) \<and> has_callback t" using inv release(1,2) by (auto simp: items_only_def)
  show ?thesis
    unfolding items_only_def
  proof
    fix x assume "x \<in> set (tasks (step i s))"
    then have "x = advance t \<or> x \<in> set (tasks s)"
      using release by (auto dest: set_update_cases)
    then show "guarded (script x) \<and> has_callback x"
      using t inv release(4) by (auto simp: items_only_def)
  qed
next
  case (create t acts rest)
  assume inv: "items_only s"
  have "guarded (script t)" using inv create(1,2) by (auto simp: items_only_def)
  then have False using create(4) guarded_no_create by (simp add: script_def)
  then show ?thesis ..
next
  case (advance t a rest)
  assume inv: "items_only s"
  have t: "guarded (script t) \<and> has_callback t" using inv advance(1,2) by (auto simp: items_only_def)
  show ?thesis
    unfolding items_only_def
  proof
    fix x assume "x \<in> set (tasks (step i s))"
    then have "x = advance t \<or> x \<in> set (tasks s)"
      using advance by (auto dest: set_update_cases)
    then show "guarded (script x) \<and> has_callback x"
      using t inv advance(4) by (auto simp: items_only_def)
  qed
qed

lemma items_only_run: "items_only s \<Longrightarrow> items_only (run_loop sch s)"
  by (induction sch arbitrary: s) (simp_all add: items_only_step)

lemma guarded_counts:
  assumes "guarded (ex @ td)"
  shows "count_list ex SemRelease \<le> count_list ex SemAcquire"
    and "ex \<noteq> [] \<Longrightarrow> td \<noteq> [] \<Longrightarrow> count_list ex SemAcquire = count_list ex SemRelease + 1"
proof -
  obtain body where b: "ex @ td = SemAcquire # body @ [SemRelease]"
    and na: "SemAcquire \<notin> set body" and nr: "SemRelease \<notin> set body"
    using assms by (auto simp: guarded_def)
  have total_a: "count_list (ex @ td) SemAcquire = 1"
    and total_r: "count_list (ex @ td) SemRelease = 1"
    using na nr by (simp_all add: b count_list_0_iff)
  have first: "1 \<le> count_list ex SemAcquire" if nonempty: "ex \<noteq> []"
  proof -
    obtain x ex' where ex: "ex = x # ex'" using nonempty by (cases ex) auto
    then have "x = SemAcquire" using b by simp
    then show ?thesis using ex by simp
  qed
  show "count_list ex SemRelease \<le> count_list ex SemAcquire"
  proof (cases "ex = []")
    case True
    then show "count_list ex SemRelease \<le> count_list ex SemAcquire" by simp
  next
    case False
    then have "1 \<le> count_list ex SemAcquire" by (rule first)
    moreover have "count_list ex SemRelease \<le> 1" using total_r by simp
    ultimately show "count_list ex SemRelease \<le> count_list ex SemAcquire" by linarith
  qed
  show "count_list ex SemAcquire = count_list ex SemRelease + 1"
    if started: "ex \<noteq> []" and unfinished: "td \<noteq> []"
  proof -
    have a1: "1 \<le> count_list ex SemAcquire" using started by (rule first)
    have a2: "count_list ex SemAcquire \<le> 1" using total_a by simp
    have "last (ex @ td) = SemRelease" by (simp add: b)
    then have "last td = SemRelease" using unfinished by simp
    then have "SemRelease \<in> set td" using unfinished by (metis last_in_set)
    then have "count_list td SemRelease \<noteq> 0" by (simp add: count_list_0_iff)
    then have "count_list ex SemRelease = 0" using total_r by simp
    then show ?thesis using a1 a2 by simp
  qed
qed

lemma in_flight_holds_slot:
  assumes "guarded (script t)"
  shows "(if in_flight t then 1 else 0) + count_list (executed t) SemRelease
           \<le> count_list (executed t) SemAcquire"
proof (cases "in_flight t")
  case True
  then have "executed t \<noteq> []" "todo t \<noteq> []" by (auto simp: in_flight_def)
  then show ?thesis
    using guarded_counts(2) [of "executed t" "todo t"] assms True by (simp add: script_def)
next
  case False
  then show ?thesis
    using guarded_counts(1) [of "executed t" "todo t"] assms by (simp add: script_def)
qed

lemma in_flight_le_slots:
  "\<forall>t \<in> set ts. guarded (script t) \<Longrightarrow>
     length (filter in_flight ts) + sum_list (map (\<lambda>t. count_list (executed t) SemRelease) ts)
       \<le> sum_list (map (\<lambda>t. count_list (executed t) SemAcquire) ts)"
proof (induction ts)
  case Nil
  then show ?case by simp
next
  case (Cons t ts)
  have "(if in_flight t then 1 else 0) + count_list (executed t) SemRelease
           \<le> count_list (executed t) SemAcquire"
    using Cons.prems by (simp add: in_flight_holds_slot)
  moreover have "length (filter in_flight ts)
       + sum_list (map (\<lambda>t. count_list (executed t) SemRelease) ts)
       \<le> sum_list (map (\<lambda>t. count_list (executed t) SemAcquire) ts)"
    using Cons by simp
  ultimately show ?case by (cases "in_flight t") simp_all
qed

lemma sem_free_download_video:
  "SemAcquire \<notin> set (snd (download_video u d c rl fetch))"
  "SemRelease \<notin> set (snd (download_video u d c rl fetch))"
  "CreateTask acts \<notin> set (snd (download_video u d c rl fetch))"
  using sleep_after_download_cases [of rl]
  by (auto simp: download_video_closed_form attempt_actions_def split: if_splits)

lemma guarded_sem_download: "guarded (snd (sem_download u d rl probe fetch))"
proof -
  have "\<exists>body. snd (sem_download u d rl probe fetch) = SemAcquire # body @ [SemRelease]
          \<and> SemAcquire \<notin> set body \<and> SemRelease \<notin> set body
          \<and> (\<forall>acts. CreateTask acts \<notin> set body)"
  proof (cases "fst (fetch_video_metadata u probe)")
    case None
    then have "snd (sem_download u d rl probe fetch)
        = SemAcquire # [ProbeCall u, ProbeDone probe,
            Log WARNING (''Skipping download (metadata fetch failed): '' @ u)] @ [SemRelease]"
      by (auto simp: sem_download_def fetch_video_metadata_def split: probe_outcome.splits)
    then show ?thesis by (intro exI [of _ "[ProbeCall u, ProbeDone probe,
            Log WARNING (''Skipping download (metadata fetch failed): '' @ u)]"]) simp
  next
    case (Some metadata)
    let ?dv = "snd (download_video u d None rl fetch)"
    have "snd (sem_download u d rl probe fetch)
            = SemAcquire # ([ProbeCall u, ProbeDone probe] @ ?dv) @ [SemRelease]
        \<or> (\<exists>m. snd (sem_download u d rl probe fetch)
            = SemAcquire # ([ProbeCall u, ProbeDone probe] @ ?dv @ [Log ERROR m]) @ [SemRelease])"
      using Some
      by (auto simp: sem_download_def fetch_video_metadata_def
          split: probe_outcome.splits prod.splits sum.splits error.splits)
    then show ?thesis
    proof
      assume a: "snd (sem_download u d rl probe fetch)
            = SemAcquire # ([ProbeCall u, ProbeDone probe] @ ?dv) @ [SemRelease]"
      show ?thesis
        by (intro exI [of _ "[ProbeCall u, ProbeDone probe] @ ?dv"])
          (simp add: a sem_free_download_video)
    next
      assume "\<exists>m. snd (sem_download u d rl probe fetch)
            = SemAcquire # ([ProbeCall u, ProbeDone probe] @ ?dv @ [Log ERROR m]) @ [SemRelease]"
      then obtain m where a: "snd (sem_download u d rl probe fetch)
            = SemAcquire # ([ProbeCall u, ProbeDone probe] @ ?dv @ [Log ERROR m]) @ [SemRelease]"
        by blast
      show ?thesis
        by (intro exI [of _ "[ProbeCall u, ProbeDone probe] @ ?dv @ [Log ERROR m]"])
          (simp add: a sem_free_download_video)
    qed
  qed
  then show ?thesis by (simp add: guarded_def)
qed

lemma download_videos_in_channel_items:
  assumes "download_videos_in_channel channel_videos download_dir max_concurrent rate_limit
             probe fetch = Inr s0"
  shows "items_only s0" "acquired s0 = 0" "released s0 = 0"
proof -
  have s0: "tasks s0 = map (\<lambda>(i, video_url).
                        new_task (snd (sem_download video_url download_dir rate_limit
                                         (probe i) (fetch i))) True)
                     (enumerate 0 channel_videos)"
    using assms by (auto simp: download_videos_in_channel_def split: if_splits)
  show "items_only s0"
    by (auto simp: items_only_def s0 new_task_def script_def guarded_sem_download)
  show "acquired s0 = 0" "released s0 = 0"
    by (auto simp: acquired_def released_def s0 new_task_def)
qed

text \<open>
  Supporting fact for C1: in \<open>download_videos_in_channel\<close>, where the whole of \<open>sem_download\<close>
  is inside \<open>async with semaphore\<close>, the item units in flight never outnumber the slots,
  however the tasks are scheduled.
\<close>

lemma download_videos_in_channel_bounds_in_flight:
  assumes "download_videos_in_channel channel_videos download_dir max_concurrent rate_limit
             probe fetch = Inr s0"
  shows "in_flight_count (run_loop sch s0) + sem_value (run_loop sch s0) \<le> nat max_concurrent"
proof -
  let ?s = "run_loop sch s0"
  have "sem_value s0 + acquired s0 = released s0 + nat max_concurrent"
    using download_videos_in_channel_items [OF assms] download_videos_in_channel_initial(3) [OF assms]
    by simp
  then have slots: "sem_value ?s + acquired ?s = released ?s + nat max_concurrent"
    by (rule slots_run)
  have "items_only ?s"
    using download_videos_in_channel_items(1) [OF assms] by (rule items_only_run)
  then have "\<forall>t \<in> set (tasks ?s). guarded (script t)" by (simp add: items_only_def)
  then have "in_flight_count ?s + released ?s \<le> acquired ?s"
    unfolding in_flight_count_def released_def acquired_def by (rule in_flight_le_slots)
  then show ?thesis using slots by linarith
qed

lemma progress_none_step: "progress s = None \<Longrightarrow> progress (step i s) = None"
  by (cases i s rule: step_cases) simp_all

lemma length_tasks_step: "length (tasks s) \<le> length (tasks (step i s))"
  by (cases i s rule: step_cases) simp_all

lemma progress_none_run: "progress s = None \<Longrightarrow> progress (run_loop sch s) = None"
  by (induction sch arbitrary: s) (simp_all add: progress_none_step)

lemma items_only_counts:
  assumes "items_only s"
  shows "completed_items s = length (filter finished (tasks s))"
    and "item_tasks s = length (tasks s)"
proof -
  have "filter (\<lambda>t. finished t \<and> has_callback t) (tasks s) = filter finished (tasks s)"
    using assms by (intro filter_cong) (auto simp: items_only_def)
  then show "completed_items s = length (filter finished (tasks s))"
    by (simp add: completed_items_def)
  have "filter has_callback (tasks s) = tasks s"
    using assms by (simp add: items_only_def)
  then show "item_tasks s = length (tasks s)"
    by (simp add: item_tasks_def)
qed

text \<open>
  C6, as the code has it. The progress bar belongs to one call of
  \<open>download_videos_in_channel\<close>: its total is the number of videos of that call, one task
  per video. The count is raised by the done callbacks of these tasks and by nothing
  else, and the loop runs the callback of a task after the task has finished, not in the
  same step. So, however the tasks are scheduled: the count is the number of tasks whose
  callback has run, each of them finished; it is at most the number of finished tasks and
  at most the total, and it is the total once every callback has run; it never decreases
  as the loop goes on and the total does not change; a step of the loop adds one exactly
  when it is the step for a finished task whose callback has not run, and after that step
  the callback of the task has run, so no task is counted twice. The entry path of
  \<open>main_async\<close> has no progress bar.
\<close>

theorem progress_counter_per_channel:
  "(download_videos_in_channel channel_videos download_dir max_concurrent rate_limit probe fetch
      = Inr initial \<longrightarrow>
      (\<exists>p. progress (run_loop sch initial) = Some p
         \<and> pbar_total p = length channel_videos
         \<and> length (tasks (run_loop sch initial)) = length channel_videos
         \<and> pbar_n p = length (filter callback_ran (tasks (run_loop sch initial)))
         \<and> list_all (\<lambda>t. callback_ran t \<longrightarrow> finished t) (tasks (run_loop sch initial))
         \<and> pbar_n p \<le> length (filter finished (tasks (run_loop sch initial)))
         \<and> pbar_n p \<le> pbar_total p
         \<and> (list_all callback_ran (tasks (run_loop sch initial)) \<longrightarrow> pbar_n p = pbar_total p)
         \<and> (\<exists>q. progress (run_loop (sch @ later) initial) = Some q
               \<and> pbar_total q = pbar_total p \<and> pbar_n p \<le> pbar_n q)
         \<and> (\<exists>q. progress (step i (run_loop sch initial)) = Some q
               \<and> pbar_n q = pbar_n p
                    + (if i < length channel_videos
                          \<and> finished (tasks (run_loop sch initial) ! i)
                          \<and> \<not> callback_ran (tasks (run_loop sch initial) ! i)
                       then 1 else 0))
         \<and> (i < length channel_videos \<and> finished (tasks (run_loop sch initial) ! i) \<longrightarrow>
               callback_ran (tasks (step i (run_loop sch initial)) ! i))))
   \<and> progress (run_loop sch (loop (main_async loaded max_concurrent_downloads rate_limit
                                      lister fetch_run))) = None"
proof (intro conjI impI)
  assume a: "download_videos_in_channel channel_videos download_dir max_concurrent rate_limit
               probe fetch = Inr initial"
  let ?s = "run_loop sch initial"
  let ?flags = "\<lambda>s. list_all (\<lambda>t. callback_ran t \<longrightarrow> finished t \<and> has_callback t) (tasks s)"
  have ok: "counter_ok (run_loop sc initial)" for sc
    using download_videos_in_channel_initial(1) [OF a] by (rule counter_ok_run)
  have items: "item_tasks (run_loop sc initial) = length channel_videos" for sc
    using download_videos_in_channel_initial(2) [OF a] by (simp add: item_tasks_run)
  have only: "items_only ?s"
    using download_videos_in_channel_items(1) [OF a] by (rule items_only_run)
  have len: "length (tasks ?s) = length channel_videos"
    using items [of sch] items_only_counts(2) [OF only] by simp
  obtain p where p: "progress ?s = Some p" "pbar_n p = counted_items ?s"
    "pbar_total p = item_tasks ?s" and flags: "?flags ?s"
    using ok [of sch] by (auto simp: counter_ok_def split: option.splits)
  obtain p1 where p1: "progress (run_loop (sch @ later) initial) = Some p1"
    "pbar_n p1 = counted_items (run_loop (sch @ later) initial)"
    "pbar_total p1 = item_tasks (run_loop (sch @ later) initial)"
    using ok [of "sch @ later"] by (auto simp: counter_ok_def split: option.splits)
  obtain p2 where p2: "progress (step i ?s) = Some p2" "pbar_n p2 = counted_items (step i ?s)"
    using counter_ok_step [OF ok [of sch], of i] by (auto simp: counter_ok_def split: option.splits)
  have after: "list_all (\<lambda>t. callback_ran t \<longrightarrow> finished t) (tasks ?s)"
    using flags by (auto simp: list_all_iff)
  have mono: "pbar_n p \<le> pbar_n p1"
    using counted_items_mono [of ?s later] by (simp add: p p1)
  have same_total: "pbar_total p1 = pbar_total p"
    using items [of sch] items [of "sch @ later"] by (simp add: p p1)
  have le_finished: "pbar_n p \<le> length (filter finished (tasks ?s))"
    using counted_le_completed [OF flags] items_only_counts(1) [OF only] by (simp add: p)
  have bound: "pbar_n p \<le> pbar_total p"
    using counted_le_completed [OF flags] completed_le_items [of ?s] by (simp add: p)
  have full: "pbar_n p = pbar_total p" if "list_all callback_ran (tasks ?s)"
  proof -
    have "filter callback_ran (tasks ?s) = tasks ?s"
      using that by (simp add: list_all_iff)
    then show ?thesis by (simp add: p counted_items_def items len)
  qed
  have cb: "has_callback (tasks ?s ! i)" if "i < length channel_videos"
    using only that len by (simp add: items_only_def)
  have one: "pbar_n p2 = pbar_n p
               + (if i < length channel_videos \<and> finished (tasks ?s ! i)
                     \<and> \<not> callback_ran (tasks ?s ! i)
                  then 1 else 0)"
  proof (cases "i < length channel_videos \<and> finished (tasks ?s ! i)")
    case True
    then show ?thesis
      using counted_items_callback(1) [of i ?s] cb len by (simp add: p p2)
  next
    case False
    then have "\<not> (i < length (tasks ?s) \<and> finished (tasks ?s ! i))" by (simp add: len)
    then show ?thesis
      using counted_items_not_finished [OF flags] False by (auto simp: p p2)
  qed
  have ran: "callback_ran (tasks (step i ?s) ! i)"
    if "i < length channel_videos \<and> finished (tasks ?s ! i)"
    using counted_items_callback(2) [of i ?s] cb len that by simp
  show "\<exists>p. progress ?s = Some p
         \<and> pbar_total p = length channel_videos
         \<and> length (tasks ?s) = length channel_videos
         \<and> pbar_n p = length (filter callback_ran (tasks ?s))
         \<and> list_all (\<lambda>t. callback_ran t \<longrightarrow> finished t) (tasks ?s)
         \<and> pbar_n p \<le> length (filter finished (tasks ?s))
         \<and> pbar_n p \<le> pbar_total p
         \<and> (list_all callback_ran (tasks ?s) \<longrightarrow> pbar_n p = pbar_total p)
         \<and> (\<exists>q. progress (run_loop (sch @ later) initial) = Some q
               \<and> pbar_total q = pbar_total p \<and> pbar_n p \<le> pbar_n q)
         \<and> (\<exists>q. progress (step i ?s) = Some q
               \<and> pbar_n q = pbar_n p
                    + (if i < length channel_videos \<and> finished (tasks ?s ! i)
                          \<and> \<not> callback_ran (tasks ?s ! i)
                       then 1 else 0))
         \<and> (i < length channel_videos \<and> finished (tasks ?s ! i) \<longrightarrow>
               callback_ran (tasks (step i ?s) ! i))"
  proof (rule exI [of _ p], intro conjI)
    show "progress ?s = Some p" by (rule p(1))
    show "pbar_total p = length channel_videos" by (simp add: p items)
    show "length (tasks ?s) = length channel_videos" by (rule len)
    show "pbar_n p = length (filter callback_ran (tasks ?s))" by (simp add: p counted_items_def)
    show "list_all (\<lambda>t. callback_ran t \<longrightarrow> finished t) (tasks ?s)" by (rule after)
    show "pbar_n p \<le> length (filter finished (tasks ?s))" by (rule le_finished)
    show "pbar_n p \<le> pbar_total p" by (rule bound)
    show "list_all callback_ran (tasks ?s) \<longrightarrow> pbar_n p = pbar_total p" using full by blast
    show "\<exists>q. progress (run_loop (sch @ later) initial) = Some q
               \<and> pbar_total q = pbar_total p \<and> pbar_n p \<le> pbar_n q"
      using p1(1) same_total mono by blast
    show "\<exists>q. progress (step i ?s) = Some q
               \<and> pbar_n q = pbar_n p
                    + (if i < length channel_videos \<and> finished (tasks ?s ! i)
                          \<and> \<not> callback_ran (tasks ?s ! i)
                       then 1 else 0)"
      using p2(1) one by blast
    show "i < length channel_videos \<and> finished (tasks ?s ! i) \<longrightarrow>
               callback_ran (tasks (step i ?s) ! i)"
      using ran by blast
  qed
next
  have "progress (loop (main_async loaded max_concurrent_downloads rate_limit lister fetch_run))
          = None"
    by (simp add: main_async_def Let_def split: sum.splits)
  then show "progress (run_loop sch (loop (main_async loaded max_concurrent_downloads rate_limit
                                      lister fetch_run))) = None"
    by (rule progress_none_run)
qed

text \<open>
  At one video whose probe fails: after six steps its task has done its five actions and
  has finished, and the count is still 0, because the callback has not run; the next step
  of the loop runs it and the count is 1, the total.
\<close>

theorem progress_counter_per_channel_witness:
  "download_videos_in_channel [''a''] ''out'' 1 None (\<lambda>i. ProbeRaised ''gone'') (\<lambda>i k. FetchOk)
     = Inr \<lparr>sem_value = 1,
            tasks = [new_task [SemAcquire, ProbeCall ''a'', ProbeDone (ProbeRaised ''gone''),
                               Log WARNING ''Skipping download (metadata fetch failed): a'',
                               SemRelease] True],
            progress = Some \<lparr>pbar_total = 1, pbar_n = 0\<rparr>\<rparr>
   \<and> (\<exists>p. progress (run_loop [0, 0, 0, 0, 0, 0]
               \<lparr>sem_value = 1,
                tasks = [new_task [SemAcquire, ProbeCall ''a'', ProbeDone (ProbeRaised ''gone''),
                           Log WARNING ''Skipping download (metadata fetch failed): a'',
                           SemRelease] True],
                progress = Some \<lparr>pbar_total = 1, pbar_n = 0\<rparr>\<rparr>) = Some p
          \<and> pbar_total p = 1 \<and> pbar_n p \<le> pbar_total p)
   \<and> map finished (tasks (run_loop [0, 0, 0, 0, 0, 0]
        \<lparr>sem_value = 1,
         tasks = [new_task [SemAcquire, ProbeCall ''a'', ProbeDone (ProbeRaised ''gone''),
                            Log WARNING ''Skipping download (metadata fetch failed): a'',
                            SemRelease] True],
         progress = Some \<lparr>pbar_total = 1, pbar_n = 0\<rparr>\<rparr>)) = [True]
   \<and> progress (run_loop [0, 0, 0, 0, 0, 0]
        \<lparr>sem_value = 1,
         tasks = [new_task [SemAcquire, ProbeCall ''a'', ProbeDone (ProbeRaised ''gone''),
                            Log WARNING ''Skipping download (metadata fetch failed): a'',
                            SemRelease] True],
         progress = Some \<lparr>pbar_total = 1, pbar_n = 0\<rparr>\<rparr>)
       = Some \<lparr>pbar_total = 1, pbar_n = 0\<rparr>
   \<and> progress (run_loop [0, 0, 0, 0, 0, 0, 0]
        \<lparr>sem_value = 1,
         tasks = [new_task [SemAcquire, ProbeCall ''a'', ProbeDone (ProbeRaised ''gone''),
                            Log WARNING ''Skipping download (metadata fetch failed): a'',
                            SemRelease] True],
         progress = Some \<lparr>pbar_total = 1, pbar_n = 0\<rparr>\<rparr>)
       = Some \<lparr>pbar_total = 1, pbar_n = 1\<rparr>"
proof -
  let ?start = "\<lparr>sem_value = 1,
            tasks = [new_task [SemAcquire, ProbeCall ''a'', ProbeDone (ProbeRaised ''gone''),
                               Log WARNING ''Skipping download (metadata fetch failed): a'',
                               SemRelease] True],
            progress = Some \<lparr>pbar_total = 1, pbar_n = 0\<rparr>\<rparr>"
  have init: "download_videos_in_channel [''a''] ''out'' 1 None (\<lambda>i. ProbeRaised ''gone'')
                (\<lambda>i k. FetchOk) = Inr ?start"
    by (simp add: download_videos_in_channel_def sem_download_def fetch_video_metadata_def
        enumerate_eq_zip upt_rec)
  have general: "\<exists>p. progress (run_loop [0, 0, 0, 0, 0, 0] ?start) = Some p
          \<and> pbar_total p = length [''a''] \<and> pbar_n p \<le> pbar_total p"
    using init
      progress_counter_per_channel
        [where channel_videos = "[''a'']" and download_dir = "''out''" and max_concurrent = 1
           and rate_limit = None and probe = "\<lambda>i. ProbeRaised ''gone''"
           and fetch = "\<lambda>i k. FetchOk" and sch = "[0, 0, 0, 0, 0, 0]" and later = "[0]" and i = 0
           and initial = ?start
           and loaded = "Inl (ConfigError ''missing'')" and max_concurrent_downloads = 1
           and lister = "\<lambda>u. Listed []" and fetch_run = "\<lambda>c i k. FetchOk"]
    by blast
  have run: "run_loop [0, 0, 0, 0, 0, 0] ?start
      = \<lparr>sem_value = 1,
         tasks = [\<lparr>todo = [],
                   executed = [SemAcquire, ProbeCall ''a'', ProbeDone (ProbeRaised ''gone''),
                               Log WARNING ''Skipping download (metadata fetch failed): a'',
                               SemRelease],
                   finished = True, has_callback = True, callback_ran = False, children = []\<rparr>],
         progress = Some \<lparr>pbar_total = 1, pbar_n = 0\<rparr>\<rparr>"
    by (simp add: loop_defs)
  have counted: "progress (run_loop [0, 0, 0, 0, 0, 0, 0] ?start)
      = Some \<lparr>pbar_total = 1, pbar_n = 1\<rparr>"
    by (simp add: loop_defs)
  have fin: "map finished (tasks (run_loop [0, 0, 0, 0, 0, 0] ?start)) = [True]"
    and lag: "progress (run_loop [0, 0, 0, 0, 0, 0] ?start) = Some \<lparr>pbar_total = 1, pbar_n = 0\<rparr>"
    unfolding run by simp_all
  have len: "length [''a''] = 1" by simp
  from init fin lag counted general [unfolded len] show ?thesis by blast
qed

text \<open>
  C6 fails at a run of two channels, of two videos and of one video. The loop of
  \<open>main_async\<close> has no progress bar at all, so the run has no counter of its three items.
  The only progress bar of the code is the one a call of \<open>download_videos_in_channel\<close>
  makes for the list of videos it is given: for the videos of the first channel its total
  is 2, not 3.
\<close>

theorem run_has_no_shared_counter:
  "map (\<lambda>channel_config.
          channel_listing channel_config
            (\<lambda>u. if u = ''https://www.youtube.com/channel/UCx/videos''
                  then Listed [Some [(''id'', ''a'')], Some [(''id'', ''b'')]]
                  else Listed [Some [(''id'', ''c'')]]))
       [[''url'' \<mapsto> ''UCx''], [''url'' \<mapsto> ''UCy'']]
     = [Inr [''https://www.youtube.com/watch?v=a'', ''https://www.youtube.com/watch?v=b''],
        Inr [''https://www.youtube.com/watch?v=c'']]
   \<and> progress (loop (main_async
                       (Inr \<lparr>channels = [[''url'' \<mapsto> ''UCx''], [''url'' \<mapsto> ''UCy'']],
                             default_directories = [''out''], cookies_file = None\<rparr>)
                       3 None
                       (\<lambda>u. if u = ''https://www.youtube.com/channel/UCx/videos''
                             then Listed [Some [(''id'', ''a'')], Some [(''id'', ''b'')]]
                             else Listed [Some [(''id'', ''c'')]])
                       (\<lambda>c i k. FetchOk))) = None
   \<and> map_sum id (\<lambda>s. map_option pbar_total (progress s))
       (download_videos_in_channel
          [''https://www.youtube.com/watch?v=a'', ''https://www.youtube.com/watch?v=b'']
          ''out'' 3 None (\<lambda>i. ProbeReturned (Some [])) (\<lambda>i k. FetchOk))
       = Inr (Some 2)
   \<and> sum_list (map length
        [[''https://www.youtube.com/watch?v=a'', ''https://www.youtube.com/watch?v=b''],
         [''https://www.youtube.com/watch?v=c'']]) = 3"
  by (simp add: listing_defs main_async_def Let_def download_videos_in_channel_def)

text \<open>
  C1, at a run of one channel with two videos and \<open>max_concurrent_downloads = 1\<close>. The
  channel task logs, then for each video takes the slot, creates the task and gives the
  slot back (eight steps of task 0); then the two video tasks each start their fetch. Now
  both fetches are running, two item units are in flight, and the semaphore, of initial
  value 1, has the value 1: no slot is held.
\<close>

theorem slot_released_before_download_runs:
  "(let r = main_async
              (Inr \<lparr>channels = [[''url'' \<mapsto> ''https://www.youtube.com/c/Example'']],
                    default_directories = [''out''], cookies_file = None\<rparr>)
              1 None
              (\<lambda>u. Listed [Some [(''id'', ''a'')], Some [(''id'', ''b'')]])
              (\<lambda>c i k. FetchOk);
        s = run_loop [0, 0, 0, 0, 0, 0, 0, 0, 1, 2] (loop r)
    in sem_value (loop r) = 1
     \<and> in_flight_count s = 2
     \<and> map awaiting_fetch (tasks s) = [False, True, True]
     \<and> map (\<lambda>t. take 1 (executed t)) (tl (tasks s))
         = [[FetchCall ''https://www.youtube.com/watch?v=a'' ''out'' None],
            [FetchCall ''https://www.youtube.com/watch?v=b'' ''out'' None]]
     \<and> sem_value s = 1)"
proof -
  have r: "loop (main_async
              (Inr \<lparr>channels = [[''url'' \<mapsto> ''https://www.youtube.com/c/Example'']],
                    default_directories = [''out''], cookies_file = None\<rparr>)
              1 None
              (\<lambda>u. Listed [Some [(''id'', ''a'')], Some [(''id'', ''b'')]])
              (\<lambda>c i k. FetchOk)) =
     \<lparr>sem_value = 1,
      tasks = [new_task
        [Log INFO ''Processing channel URL: https://www.youtube.com/c/Example/videos'',
         Log INFO ''Found 2 videos in channel: https://www.youtube.com/c/Example/videos'',
         SemAcquire,
         CreateTask [FetchCall ''https://www.youtube.com/watch?v=a'' ''out'' None, FetchDone FetchOk],
         SemRelease,
         SemAcquire,
         CreateTask [FetchCall ''https://www.youtube.com/watch?v=b'' ''out'' None, FetchDone FetchOk],
         SemRelease,
         Gather,
         Log INFO ''Completed processing channel: https://www.youtube.com/c/Example/videos''] False],
      progress = None\<rparr>"
    by (simp add: main_async_def Let_def process_channel_def list_videos_in_channel_def gather_def
      entry_video_url_def normalizer_defs str_opt_def download_video_with_retries_def
      download_video_closed_form failed_attempts_unfold attempt_error_def RETRY_LIMIT_def
      sleep_after_download_def
      enumerate_eq_zip upt_rec str_nat.simps digit_char_def)
  show ?thesis
    unfolding Let_def r
    by (simp add: loop_defs in_flight_count_def in_flight_def awaiting_fetch_def)
qed

section \<open>The outcome of a run and its loop, on an example\<close>

text \<open>
  A run of one channel with one video. With one slot \<open>main_async\<close> returns, and the loop
  can finish all its tasks: the channel task runs up to its \<open>gather\<close>, the video task runs
  to its end, the channel task ends. With no slot \<open>main_async\<close> does not return: after its
  two log lines the channel task waits for the semaphore, and no step of the loop changes
  anything.
\<close>

lemma one_video_loop:
  "0 \<le> m \<Longrightarrow>
   loop (main_async
           (Inr \<lparr>channels = [[''url'' \<mapsto> ''https://www.youtube.com/c/Example'']],
                 default_directories = [''out''], cookies_file = None\<rparr>)
           m None (\<lambda>u. Listed [Some [(''id'', ''a'')]]) (\<lambda>c i k. FetchOk)) =
     \<lparr>sem_value = nat m,
      tasks = [new_task
        [Log INFO ''Processing channel URL: https://www.youtube.com/c/Example/videos'',
         Log INFO ''Found 1 videos in channel: https://www.youtube.com/c/Example/videos'',
         SemAcquire,
         CreateTask [FetchCall ''https://www.youtube.com/watch?v=a'' ''out'' None, FetchDone FetchOk],
         SemRelease,
         Gather,
         Log INFO ''Completed processing channel: https://www.youtube.com/c/Example/videos''] False],
      progress = None\<rparr>"
  by (simp add: main_async_def Let_def process_channel_def list_videos_in_channel_def gather_def
      entry_video_url_def normalizer_defs str_opt_def download_video_with_retries_def
      download_video_closed_form failed_attempts_unfold attempt_error_def RETRY_LIMIT_def
      sleep_after_download_def
      enumerate_eq_zip upt_rec str_nat.simps digit_char_def)

lemma one_video_outcome:
  "outcome (main_async
           (Inr \<lparr>channels = [[''url'' \<mapsto> ''https://www.youtube.com/c/Example'']],
                 default_directories = [''out''], cookies_file = None\<rparr>)
           1 None (\<lambda>u. Listed [Some [(''id'', ''a'')]]) (\<lambda>c i k. FetchOk)) = Some (Inr ())"
  "outcome (main_async
           (Inr \<lparr>channels = [[''url'' \<mapsto> ''https://www.youtube.com/c/Example'']],
                 default_directories = [''out''], cookies_file = None\<rparr>)
           0 None (\<lambda>u. Listed [Some [(''id'', ''a'')]]) (\<lambda>c i k. FetchOk)) = None"
  by (simp_all add: main_async_def Let_def process_channel_def list_videos_in_channel_def
      entry_video_url_def normalizer_defs gather_def enumerate_eq_zip upt_rec
      download_video_with_retries_returns)

lemma one_video_run_finishes:
  "list_all finished
     (tasks (run_loop [0, 0, 0, 0, 0, 1, 1, 1, 0, 0, 0]
        (loop (main_async
           (Inr \<lparr>channels = [[''url'' \<mapsto> ''https://www.youtube.com/c/Example'']],
                 default_directories = [''out''], cookies_file = None\<rparr>)
           1 None (\<lambda>u. Listed [Some [(''id'', ''a'')]]) (\<lambda>c i k. FetchOk)))))"
  by (simp add: one_video_loop loop_defs)

lemma one_video_run_waits:
  "(let s = run_loop [0, 0]
        (loop (main_async
           (Inr \<lparr>channels = [[''url'' \<mapsto> ''https://www.youtube.com/c/Example'']],
                 default_directories = [''out''], cookies_file = None\<rparr>)
           0 None (\<lambda>u. Listed [Some [(''id'', ''a'')]]) (\<lambda>c i k. FetchOk)))
    in length (tasks s) = 1 \<and> \<not> finished (tasks s ! 0) \<and> step 0 s = s)"
  by (simp add: one_video_loop loop_defs)

section \<open>The loop of the entry path finishes\<close>


































section \<open>Properties of the run as a whole\<close>




end
